theory Spec2Isabelle
  imports Complex_Main
begin

section \<open>Configuration constants\<close>

text \<open>
  The script \<^verbatim>\<open>sltm/index.js\<close> opens with three global bindings:
  \<^verbatim>\<open>const sequenceLength = 10; const stretchLengthThreshold = 4; const cancelTraining = false;\<close>
  Loop counters, and the lengths and dimensions that a loop or an allocated buffer
  already has, are natural numbers here; integer-valued numbers that are data (sequence
  items, labels, tensor entries, buffer coordinates) are integers, because the scan starts
  from the item \<open>-1\<close>. Numbers that are genuinely fractional (random draws, accuracies,
  predictions) are real numbers: rounding errors of the floating-point format are not
  part of the model.

  The example count and the sequence length that are handed to the dataset builder are
  whatever the caller has: \<^verbatim>\<open>parseInt\<close> returns an integer of either sign or \<^verbatim>\<open>NaN\<close>.
  They are values of \<open>js_number\<close>; fractional counts, which \<^verbatim>\<open>parseInt\<close> never returns,
  are left out.
\<close>

datatype js_number = NaN | Num int

definition sequenceLength :: nat where
  "sequenceLength = 10"

definition stretchLengthThreshold :: nat where
  "stretchLengthThreshold = 4"

section \<open>The random source\<close>

text \<open>
  \<^verbatim>\<open>Math.random()\<close> is the only source of nondeterminism. A run of the program is
  modelled against an arbitrary but fixed sequence of draws \<open>rnd\<close>: the call number \<open>k\<close>
  (counted from the start of the run) returns \<open>rnd k\<close>. Every function that draws takes
  the number of draws made so far and returns the new count.
\<close>

type_synonym draws = "nat \<Rightarrow> real"

definition drawItem :: "draws \<Rightarrow> nat \<Rightarrow> int" where
  \<comment> \<open>\<^verbatim>\<open>Math.random() > 0.5 ? 1 : 0\<close>\<close>
  "drawItem rnd k = (if rnd k > 0.5 then 1 else 0)"

section \<open>The sequence and label generator\<close>

text \<open>The local variables of \<^verbatim>\<open>generateSequenceAndLabel\<close>.\<close>

record gen_state =
  sequence :: "int list"
  currentItem :: int
  stretchLength :: nat
  label :: int

definition initialGenState :: gen_state where
  "initialGenState = \<lparr>sequence = [], currentItem = -1, stretchLength = 0, label = 0\<rparr>"

text \<open>One pass through the body of the \<^verbatim>\<open>for\<close> loop, for the item just drawn.\<close>

definition pushItem :: "int \<Rightarrow> gen_state \<Rightarrow> gen_state" where
  "pushItem item s = s\<lparr>sequence := sequence s @ [item]\<rparr>"

definition trackStretch :: "int \<Rightarrow> gen_state \<Rightarrow> gen_state" where
  "trackStretch item s =
     (if currentItem s = item
      then s\<lparr>stretchLength := stretchLength s + 1\<rparr>
      else s\<lparr>currentItem := item, stretchLength := 1\<rparr>)"

definition markLabel :: "gen_state \<Rightarrow> gen_state" where
  "markLabel s = (if stretchLength s \<ge> stretchLengthThreshold then s\<lparr>label := 1\<rparr> else s)"

definition loopBody :: "int \<Rightarrow> gen_state \<Rightarrow> gen_state" where
  "loopBody item s = markLabel (trackStretch item (pushItem item s))"

text \<open>
  The loop \<^verbatim>\<open>for (let i = 0; i < len; ++i)\<close>: \<open>i\<close> is the loop counter, \<open>k\<close> the number
  of random draws made so far.
\<close>

function genLoop :: "nat \<Rightarrow> nat \<Rightarrow> draws \<Rightarrow> nat \<Rightarrow> gen_state \<Rightarrow> gen_state \<times> nat" where
  "genLoop i len rnd k s =
     (if i < len
      then genLoop (Suc i) len rnd (Suc k) (loopBody (drawItem rnd k) s)
      else (s, k))"
  by pat_completeness auto
termination
  by (relation "measure (\<lambda>(i, len, rnd, k, s). len - i)") auto

declare genLoop.simps [simp del]

definition generateSequenceAndLabel :: "nat \<Rightarrow> draws \<Rightarrow> nat \<Rightarrow> (int list \<times> int) \<times> nat" where
  "generateSequenceAndLabel len rnd k =
     (case genLoop 0 len rnd k initialGenState of
        (s, k') \<Rightarrow> ((sequence s, label s), k'))"

section \<open>Errors\<close>

text \<open>
  Three exceptions can arise in the script. An assignment to a \<^verbatim>\<open>const\<close> binding throws
  \<^verbatim>\<open>TypeError\<close>. The tensor library's \<^verbatim>\<open>tf.buffer\<close> asserts that every dimension of the
  shape is a non-negative integer, and its \<^verbatim>\<open>TensorBuffer.set\<close> asserts that it is given as
  many coordinates as the buffer has dimensions; a failed assertion throws a plain
  \<^verbatim>\<open>Error\<close>.
\<close>

datatype js_error = TypeError | GenericError

section \<open>Tensor buffers\<close>

text \<open>
  \<^verbatim>\<open>tf.buffer(shape)\<close> of the external tensor library checks the shape first: a
  dimension that is negative or not a number makes it throw, before anything is
  allocated. A shape of non-negative integers gives a zero-filled flat array of as many
  numbers as the product of the dimensions, in row-major order, together with the shape;
  a dimension of 0 is accepted and gives an empty array.
  \<^verbatim>\<open>toTensor()\<close> hands the same shape and numbers on as an immutable tensor.
\<close>

record tensorBuffer =
  shape :: "nat list"
  vals :: "int list"

type_synonym tensor = tensorBuffer

definition nonNegativeInteger :: "js_number \<Rightarrow> bool" where
  "nonNegativeInteger x = (case x of NaN \<Rightarrow> False | Num n \<Rightarrow> 0 \<le> n)"

text \<open>The natural number that a checked dimension is.\<close>

definition dimension :: "js_number \<Rightarrow> nat" where
  "dimension x = (case x of NaN \<Rightarrow> 0 | Num n \<Rightarrow> nat n)"

definition tf_buffer :: "js_number list \<Rightarrow> js_error + tensorBuffer" where
  "tf_buffer shp =
     (if list_all nonNegativeInteger shp
      then Inr \<lparr>shape = map dimension shp, vals = replicate (prod_list (map dimension shp)) 0\<rparr>
      else Inl GenericError)"

fun computeStrides :: "nat list \<Rightarrow> nat list" where
  "computeStrides [] = []"
| "computeStrides [d] = []"
| "computeStrides (d # ds) = prod_list ds # computeStrides ds"

definition locToIndex :: "nat list \<Rightarrow> int list \<Rightarrow> int" where
  "locToIndex strides locs =
     (if locs = [] then 0
      else last locs + sum_list (map (\<lambda>(st, l). int st * l) (zip strides (butlast locs))))"

text \<open>
  \<^verbatim>\<open>buffer.set(value, ...locs)\<close>: the rank assertion, then a write into the flat typed
  array. A typed array ignores a write outside its bounds.
\<close>

definition bufferSet :: "int \<Rightarrow> int list \<Rightarrow> tensorBuffer \<Rightarrow> js_error + tensorBuffer" where
  "bufferSet v locs b =
     (let locs' = (if locs = [] then [0] else locs) in
      if length locs' \<noteq> length (shape b) then Inl GenericError
      else
        (let idx = locToIndex (computeStrides (shape b)) locs' in
         if 0 \<le> idx \<and> idx < int (length (vals b))
         then Inr (b\<lparr>vals := (vals b)[nat idx := v]\<rparr>)
         else Inr b))"

definition toTensor :: "tensorBuffer \<Rightarrow> tensor" where
  "toTensor b = b"

text \<open>
  Reading an array element: \<^verbatim>\<open>sequence[j]\<close> is \<^verbatim>\<open>undefined\<close> beyond the end of the array.
\<close>

definition arrayGet :: "int list \<Rightarrow> nat \<Rightarrow> int option" where
  "arrayGet xs j = (if j < length xs then Some (xs ! j) else None)"

section \<open>One-hot encoding of a sequence into a row of a buffer\<close>

text \<open>
  The inner loop of both \<^verbatim>\<open>generateDataset\<close> and \<^verbatim>\<open>getInput\<close>:
  \<^verbatim>\<open>for (let j = 0; j < sequenceLength; ++j) { buffer.set(1, i, j, sequence[j]); }\<close>
  With an \<^verbatim>\<open>undefined\<close> channel the flat index is \<^verbatim>\<open>NaN\<close> and the write is ignored.
\<close>

function encodeLoop :: "nat \<Rightarrow> nat \<Rightarrow> nat \<Rightarrow> int list \<Rightarrow> tensorBuffer \<Rightarrow> js_error + tensorBuffer" where
  "encodeLoop j len i sq b =
     (if j < len
      then
        (case (case arrayGet sq j of
                 None \<Rightarrow> (if length (shape b) \<noteq> 3 then Inl GenericError else Inr b)
               | Some c \<Rightarrow> bufferSet 1 [int i, int j, c] b) of
           Inl e \<Rightarrow> Inl e
         | Inr b' \<Rightarrow> encodeLoop (Suc j) len i sq b')
      else Inr b)"
  by pat_completeness auto
termination
  by (relation "measure (\<lambda>(j, len, i, sq, b). len - j)") auto

declare encodeLoop.simps [simp del]

section \<open>The dataset builder\<close>

function datasetLoop ::
  "nat \<Rightarrow> nat \<Rightarrow> nat \<Rightarrow> draws \<Rightarrow> nat \<Rightarrow> tensorBuffer \<Rightarrow> tensorBuffer
     \<Rightarrow> js_error + (tensorBuffer \<times> tensorBuffer \<times> nat)" where
  "datasetLoop i numExamples seqLen rnd k sequencesBuffer labelsBuffer =
     (if i < numExamples
      then
        (case generateSequenceAndLabel seqLen rnd k of
           ((sq, lab), k') \<Rightarrow>
             (case encodeLoop 0 seqLen i sq sequencesBuffer of
                Inl e \<Rightarrow> Inl e
              | Inr sb \<Rightarrow>
                  (case bufferSet lab [int i, 0] labelsBuffer of
                     Inl e \<Rightarrow> Inl e
                   | Inr lb \<Rightarrow> datasetLoop (Suc i) numExamples seqLen rnd k' sb lb)))
      else Inr (sequencesBuffer, labelsBuffer, k))"
  by pat_completeness auto
termination
  by (relation "measure (\<lambda>(i, numExamples, seqLen, rnd, k, sb, lb). numExamples - i)") auto

declare datasetLoop.simps [simp del]

text \<open>
  \<^verbatim>\<open>generateDataset\<close> allocates its two buffers before anything else. When the example
  count or the sequence length is negative or not a number, the first allocation throws
  and nothing further runs. Past the two allocations both are non-negative integers, so
  the loops count up to them as natural numbers.
\<close>

definition generateDataset ::
  "js_number \<Rightarrow> js_number \<Rightarrow> draws \<Rightarrow> nat \<Rightarrow> js_error + ((tensor \<times> tensor) \<times> nat)" where
  "generateDataset numExamples seqLen rnd k =
     (case tf_buffer [numExamples, seqLen, Num 2] of
        Inl e \<Rightarrow> Inl e
      | Inr sequencesBuffer \<Rightarrow>
          (case tf_buffer [numExamples, Num 1] of
             Inl e \<Rightarrow> Inl e
           | Inr labelsBuffer \<Rightarrow>
               (case datasetLoop 0 (dimension numExamples) (dimension seqLen) rnd k
                       sequencesBuffer labelsBuffer of
                  Inl e \<Rightarrow> Inl e
                | Inr (sb, lb, k') \<Rightarrow> Inr ((toTensor sb, toTensor lb), k'))))"

section \<open>The fixed prediction inputs\<close>

definition inputs :: "int list list" where
  "inputs =
     [[0, 1, 0, 1, 0, 1, 0, 0, 1, 0],
      [0, 1, 1, 1, 1, 0, 1, 0, 0, 1],
      [0, 0, 0, 0, 0, 0, 1, 0, 0, 1]]"

function inputLoop :: "nat \<Rightarrow> nat \<Rightarrow> tensorBuffer \<Rightarrow> js_error + tensorBuffer" where
  "inputLoop i numExamples inputBuffer =
     (if i < numExamples
      then
        (case encodeLoop 0 sequenceLength i (inputs ! i) inputBuffer of
           Inl e \<Rightarrow> Inl e
         | Inr b \<Rightarrow> inputLoop (Suc i) numExamples b)
      else Inr inputBuffer)"
  by pat_completeness auto
termination
  by (relation "measure (\<lambda>(i, numExamples, b). numExamples - i)") auto

declare inputLoop.simps [simp del]

text \<open>
  \<open>numExamples\<close> is \<^verbatim>\<open>inputs.length\<close>, so \<^verbatim>\<open>inputs[i]\<close> is always read inside the array.
\<close>

definition getInput :: "js_error + tensor" where
  "getInput =
     (case tf_buffer [Num (int (length inputs)), Num (int sequenceLength), Num 2] of
        Inl e \<Rightarrow> Inl e
      | Inr inputBuffer \<Rightarrow>
          (case inputLoop 0 (length inputs) inputBuffer of
             Inl e \<Rightarrow> Inl e
           | Inr b \<Rightarrow> Inr (toTensor b)))"

section \<open>Page, training state and cancellation\<close>

text \<open>
  The text boxes of the page hold what the script assigns to them; only the
  \<^verbatim>\<open>results\<close> box is modelled down to its text.
\<close>

record page =
  resultsBox :: string
  trainEpochBox :: nat
  trainLossBox :: real
  trainAccBox :: real
  valLossBox :: real
  valAccBox :: real

record logs =
  loss :: real
  acc :: real
  val_loss :: real
  val_acc :: real

record app_state =
  cancelTraining :: bool
  stopTraining :: bool
  document :: page

text \<open>
  How a global is declared decides what an assignment to it does: assigning to a
  \<^verbatim>\<open>const\<close> binding throws \<^verbatim>\<open>TypeError\<close> and leaves the binding as it was.
\<close>

datatype binding_kind = ConstBinding | LetBinding

definition assignTo :: "binding_kind \<Rightarrow> 'a \<Rightarrow> js_error + 'a" where
  "assignTo kind v = (case kind of ConstBinding \<Rightarrow> Inl TypeError | LetBinding \<Rightarrow> Inr v)"

definition cancelTrainingBinding :: binding_kind where
  \<comment> \<open>\<^verbatim>\<open>const cancelTraining = false;\<close>\<close>
  "cancelTrainingBinding = ConstBinding"

definition cancel :: "app_state \<Rightarrow> js_error + app_state" where
  \<comment> \<open>\<^verbatim>\<open>cancelTraining = true;\<close>\<close>
  "cancel st =
     (case assignTo cancelTrainingBinding True of
        Inl e \<Rightarrow> Inl e
      | Inr v \<Rightarrow> Inr (st\<lparr>cancelTraining := v\<rparr>))"

text \<open>
  A click on the cancel button runs \<^verbatim>\<open>cancel\<close> as an event listener: an exception it
  throws is reported by the browser and changes nothing else.
\<close>

definition cancelClick :: "app_state \<Rightarrow> app_state" where
  "cancelClick st = (case cancel st of Inl e \<Rightarrow> st | Inr st' \<Rightarrow> st')"

definition onEpochEnd :: "nat \<Rightarrow> logs \<Rightarrow> app_state \<Rightarrow> app_state" where
  "onEpochEnd epoch lg st =
     (let st' = st\<lparr>document := (document st)
                  \<lparr>trainEpochBox := epoch + 1,
                   trainLossBox := loss lg,
                   trainAccBox := acc lg,
                   valLossBox := val_loss lg,
                   valAccBox := val_acc lg\<rparr>\<rparr>
      in if cancelTraining st' \<or> val_acc lg > 0.9 then st'\<lparr>stopTraining := True\<rparr> else st')"

text \<open>
  \<^verbatim>\<open>model.fit\<close> belongs to the external training framework. Its epoch loop is modelled
  as far as the script can observe it: the flag \<^verbatim>\<open>model.stopTraining\<close> is cleared when
  fitting starts; each epoch computes its logs (\<open>epochLogs epoch\<close>, whatever the framework
  arrives at), awaits the \<^verbatim>\<open>onEpochEnd\<close> callback and leaves the loop when the callback has
  set the flag. While an epoch is being computed the page can deliver a click on the cancel
  button (\<open>cancelClicked epoch\<close>), whose listener runs before the epoch's callback.
\<close>

function fitLoop :: "nat \<Rightarrow> nat \<Rightarrow> (nat \<Rightarrow> logs) \<Rightarrow> (nat \<Rightarrow> bool) \<Rightarrow> app_state \<Rightarrow> app_state" where
  "fitLoop epoch epochs epochLogs cancelClicked st =
     (if epoch < epochs
      then
        (let st1 = (if cancelClicked epoch then cancelClick st else st);
             st2 = onEpochEnd epoch (epochLogs epoch) st1
         in if stopTraining st2 then st2
            else fitLoop (Suc epoch) epochs epochLogs cancelClicked st2)
      else st)"
  by pat_completeness auto
termination
  by (relation "measure (\<lambda>(epoch, epochs, epochLogs, cancelClicked, st). epochs - epoch)") auto

declare fitLoop.simps [simp del]

definition fit :: "(nat \<Rightarrow> logs) \<Rightarrow> (nat \<Rightarrow> bool) \<Rightarrow> app_state \<Rightarrow> app_state" where
  \<comment> \<open>\<^verbatim>\<open>epochs: 1000\<close>\<close>
  "fit epochLogs cancelClicked st = fitLoop 0 1000 epochLogs cancelClicked (st\<lparr>stopTraining := False\<rparr>)"

section \<open>Rounding and printing the predictions\<close>

definition Math_round :: "real \<Rightarrow> int" where
  \<comment> \<open>\<^verbatim>\<open>Math.round\<close>: the nearest integer, a tie going up.\<close>
  "Math_round x = \<lfloor>x + 1 / 2\<rfloor>"







section \<open>The training run\<close>


section \<open>Notions used to state the properties\<close>

text \<open>The items that \<open>n\<close> successive draws starting at draw \<open>k\<close> produce.\<close>

definition drawnItems :: "draws \<Rightarrow> nat \<Rightarrow> nat \<Rightarrow> int list" where
  "drawnItems rnd k n = map (\<lambda>i. drawItem rnd (k + i)) [0..<n]"

text \<open>The loop body applied to a list of items from left to right.\<close>

fun scan :: "gen_state \<Rightarrow> int list \<Rightarrow> gen_state" where
  "scan s [] = s"
| "scan s (x # xs) = scan (loopBody x s) xs"

text \<open>
  A sequence has a stretch of length at least \<open>T\<close> when some digit stands \<open>n \<ge> T\<close> times
  in a row somewhere in it. The two notions after it are stepping stones of the proofs:
  exactly \<open>T\<close> equal digits in a row somewhere, and \<open>n\<close> copies of the last digit at the
  end of the sequence.
\<close>

definition hasStretch :: "nat \<Rightarrow> int list \<Rightarrow> bool" where
  "hasStretch T xs = (\<exists>n d pre post. T \<le> n \<and> xs = pre @ replicate n d @ post)"

definition hasExactStretch :: "nat \<Rightarrow> int list \<Rightarrow> bool" where
  "hasExactStretch T xs = (\<exists>pre d post. xs = pre @ replicate T d @ post)"

definition endsWithStretch :: "nat \<Rightarrow> int list \<Rightarrow> bool" where
  "endsWithStretch n xs = (\<exists>pre. xs = pre @ replicate n (last xs))"

text \<open>
  The length of the longest run of a sequence, computed independently of the generator's
  scan: the longest of the runs that start at each position.
\<close>

fun maxRunLength :: "int list \<Rightarrow> nat" where
  "maxRunLength [] = 0"
| "maxRunLength (x # xs) = max (Suc (length (takeWhile (\<lambda>y. y = x) xs))) (maxRunLength xs)"

text \<open>A concrete sequence of draws for examples: the items \<open>0, 1, 1, 1, 1\<close> over and over.\<close>

definition sampleDraws :: draws where
  "sampleDraws n = (if n mod 5 = 0 then 0.2 else 0.7)"

text \<open>
  The one-hot encoding that the properties refer to: channel \<open>c\<close> of a digit \<open>d\<close> holds 1
  when \<open>c = d\<close> and 0 otherwise; a sequence is encoded digit by digit.
\<close>

definition oneHot :: "int \<Rightarrow> int list" where
  "oneHot d = [if d = 0 then 1 else 0, if d = 1 then 1 else 0]"

definition oneHotSeq :: "int list \<Rightarrow> int list" where
  "oneHotSeq sq = concat (map oneHot sq)"

text \<open>
  The examples that \<open>n\<close> successive calls of the generator return when the first call
  starts at draw \<open>k\<close>: every call makes \<open>len\<close> draws.
\<close>

definition generatedExamples :: "nat \<Rightarrow> nat \<Rightarrow> draws \<Rightarrow> nat \<Rightarrow> (int list \<times> int) list" where
  "generatedExamples n len rnd k = map (\<lambda>m. fst (generateSequenceAndLabel len rnd (k + m * len))) [0..<n]"

text \<open>
  Reading a tensor at coordinates inside its shape (the library's \<^verbatim>\<open>get\<close>), and decoding a
  one-hot row as the specification words it: at each position, the channel index that
  holds the 1.
\<close>

definition tensorGet :: "tensor \<Rightarrow> int list \<Rightarrow> int option" where
  "tensorGet t locs =
     (let idx = locToIndex (computeStrides (shape t)) locs in
      if list_all2 (\<lambda>l d. 0 \<le> l \<and> l < int d) locs (shape t) \<and> nat idx < length (vals t)
      then Some (vals t ! nat idx) else None)"

definition decodeOneHot :: "tensor \<Rightarrow> nat \<Rightarrow> nat \<Rightarrow> int option" where
  "decodeOneHot t i j = find (\<lambda>c. tensorGet t [int i, int j, c] = Some 1) [0, 1]"

definition decodeRow :: "tensor \<Rightarrow> nat \<Rightarrow> int option list" where
  "decodeRow t i =
     (case shape t of
        [m, n, c] \<Rightarrow> map (decodeOneHot t i) [0..<n]
      | _ \<Rightarrow> [])"


text \<open>
  A page and a training state to start from (\<^verbatim>\<open>const cancelTraining = false\<close>), and concrete
  surroundings for examples: logs whose validation accuracy stays at 0.5, logs whose
  validation accuracy rises to 0.95 in the third epoch, a click on the cancel button during
  the first epoch, no click at all, and a model that predicts 0.2 and 0.8 in turn.
\<close>

definition initialPage :: page where
  "initialPage = \<lparr>resultsBox = [], trainEpochBox = 0, trainLossBox = 0, trainAccBox = 0,
                   valLossBox = 0, valAccBox = 0\<rparr>"

definition initialAppState :: app_state where
  "initialAppState = \<lparr>cancelTraining = False, stopTraining = False, document = initialPage\<rparr>"

definition steadyLogs :: "nat \<Rightarrow> logs" where
  "steadyLogs epoch = \<lparr>loss = 0.6, acc = 0.7, val_loss = 0.6, val_acc = 0.5\<rparr>"

definition improvingLogs :: "nat \<Rightarrow> logs" where
  "improvingLogs epoch =
     \<lparr>loss = 0.6, acc = 0.7, val_loss = 0.6, val_acc = (if epoch < 2 then 0.5 else 0.95)\<rparr>"

definition clickDuringFirstEpoch :: "nat \<Rightarrow> bool" where
  "clickDuringFirstEpoch epoch = (epoch = 0)"

definition noClicks :: "nat \<Rightarrow> bool" where
  "noClicks epoch = False"


section \<open>Properties of the generator\<close>

lemma drawnItems_0 [simp]: "drawnItems rnd k 0 = []"
  by (simp add: drawnItems_def)

lemma drawnItems_Suc: "drawnItems rnd k (Suc n) = drawItem rnd k # drawnItems rnd (Suc k) n"
proof -
  have "[0..<Suc n] = 0 # map Suc [0..<n]"
    by (simp add: upt_conv_Cons map_Suc_upt del: upt_Suc)
  then show ?thesis
    by (simp add: drawnItems_def comp_def del: upt_Suc)
qed

lemma length_drawnItems [simp]: "length (drawnItems rnd k n) = n"
  by (simp add: drawnItems_def)

lemma genLoop_scan:
  "genLoop i len rnd k s = (scan s (drawnItems rnd k (len - i)), k + (len - i))"
proof (induction i len rnd k s rule: genLoop.induct)
  case (1 i len rnd k s)
  show ?case
  proof (cases "i < len")
    case True
    then have "len - i = Suc (len - Suc i)" by simp
    with True "1.IH" show ?thesis
      by (subst genLoop.simps) (simp add: drawnItems_Suc)
  next
    case False
    then show ?thesis
      by (subst genLoop.simps) simp
  qed
qed

lemma scan_snoc: "scan s (xs @ [x]) = loopBody x (scan s xs)"
  by (induction xs arbitrary: s) auto

lemma scan_append: "scan s (xs @ ys) = scan (scan s xs) ys"
  by (induction xs arbitrary: s) auto

lemma sequence_loopBody: "sequence (loopBody x s) = sequence s @ [x]"
  by (simp add: loopBody_def markLabel_def trackStretch_def pushItem_def)

lemma sequence_scan: "sequence (scan s xs) = sequence s @ xs"
  by (induction xs arbitrary: s) (auto simp: sequence_loopBody)

lemma label_loopBody:
  "label (loopBody x s) = (if stretchLengthThreshold \<le> stretchLength (loopBody x s) then 1 else label s)"
  by (simp add: loopBody_def markLabel_def trackStretch_def pushItem_def)

lemma currentItem_loopBody: "currentItem (loopBody x s) = x"
  by (simp add: loopBody_def markLabel_def trackStretch_def pushItem_def)

lemma stretchLength_loopBody:
  "stretchLength (loopBody x s) = (if currentItem s = x then stretchLength s + 1 else 1)"
  by (simp add: loopBody_def markLabel_def trackStretch_def pushItem_def)

lemma endsWithStretch_snoc_Suc:
  "endsWithStretch (Suc m) (xs @ [x]) \<longleftrightarrow> (m = 0 \<or> (xs \<noteq> [] \<and> last xs = x \<and> endsWithStretch m xs))"
proof -
  have "endsWithStretch (Suc m) (xs @ [x]) \<longleftrightarrow> (\<exists>pre. xs @ [x] = (pre @ replicate m x) @ [x])"
    by (simp add: endsWithStretch_def replicate_append_same)
  also have "\<dots> \<longleftrightarrow> (\<exists>pre. xs = pre @ replicate m x)"
    by simp
  also have "\<dots> \<longleftrightarrow> (m = 0 \<or> (xs \<noteq> [] \<and> last xs = x \<and> endsWithStretch m xs))"
  proof (cases m)
    case 0
    then show ?thesis by simp
  next
    case (Suc j)
    then show ?thesis
      by (auto simp: endsWithStretch_def)
  qed
  finally show ?thesis .
qed

lemma hasExactStretch_snoc:
  assumes "0 < T"
  shows "hasExactStretch T (xs @ [x]) \<longleftrightarrow> hasExactStretch T xs \<or> endsWithStretch T (xs @ [x])"
proof
  assume "hasExactStretch T (xs @ [x])"
  then obtain pre d post where eq: "xs @ [x] = pre @ replicate T d @ post"
    by (auto simp: hasExactStretch_def)
  show "hasExactStretch T xs \<or> endsWithStretch T (xs @ [x])"
  proof (cases post rule: rev_cases)
    case Nil
    with eq assms have "last (xs @ [x]) = d"
      by (metis append_Nil2 last_appendR last_replicate replicate_empty less_numeral_extra(3))
    with eq Nil show ?thesis
      by (auto simp: endsWithStretch_def)
  next
    case (snoc post' y)
    with eq have "xs = pre @ replicate T d @ post'"
      by (metis append_assoc butlast_snoc)
    then show ?thesis
      by (auto simp: hasExactStretch_def)
  qed
next
  assume "hasExactStretch T xs \<or> endsWithStretch T (xs @ [x])"
  then show "hasExactStretch T (xs @ [x])"
  proof
    assume "hasExactStretch T xs"
    then obtain pre d post where "xs = pre @ replicate T d @ post"
      by (auto simp: hasExactStretch_def)
    then have "xs @ [x] = pre @ replicate T d @ (post @ [x])" by simp
    then show ?thesis unfolding hasExactStretch_def by blast
  next
    assume "endsWithStretch T (xs @ [x])"
    then obtain pre where "xs @ [x] = pre @ replicate T x @ []"
      by (auto simp: endsWithStretch_def)
    then show ?thesis unfolding hasExactStretch_def by blast
  qed
qed

lemma threshold_pos: "0 < stretchLengthThreshold"
  by (simp add: stretchLengthThreshold_def)

lemma not_endsWithStretch_Nil: "0 < n \<Longrightarrow> \<not> endsWithStretch n []"
  by (simp add: endsWithStretch_def)

lemma not_hasExactStretch_Nil: "0 < T \<Longrightarrow> \<not> hasExactStretch T []"
  by (simp add: hasExactStretch_def)

lemma scan_invariant:
  fixes xs :: "int list"
  defines "s \<equiv> scan initialGenState xs"
  shows "(xs = [] \<longrightarrow> currentItem s = -1) \<and> (xs \<noteq> [] \<longrightarrow> currentItem s = last xs)
       \<and> (\<forall>n. 0 < n \<longrightarrow> (n \<le> stretchLength s \<longleftrightarrow> endsWithStretch n xs))
       \<and> label s = (if hasExactStretch stretchLengthThreshold xs then 1 else 0)"
  unfolding s_def
proof (induction xs rule: rev_induct)
  case Nil
  show ?case
    by (simp add: initialGenState_def not_endsWithStretch_Nil not_hasExactStretch_Nil threshold_pos)
next
  case (snoc x xs)
  let ?s = "scan initialGenState xs"
  let ?s' = "scan initialGenState (xs @ [x])"
  have s': "?s' = loopBody x ?s" by (rule scan_snoc)
  have cur: "currentItem ?s' = x" by (simp add: s' currentItem_loopBody)
  have len: "n \<le> stretchLength ?s' \<longleftrightarrow> endsWithStretch n (xs @ [x])" if "0 < n" for n
  proof -
    from that obtain m where n: "n = Suc m" by (cases n) auto
    show ?thesis
    proof (cases "xs = []")
      case True
      with snoc.IH have "currentItem ?s = -1" by simp
      moreover from True have "stretchLength ?s = 0" by (simp add: initialGenState_def)
      ultimately have "stretchLength ?s' = 1"
        by (simp add: s' stretchLength_loopBody)
      with True show ?thesis
        using endsWithStretch_snoc_Suc [of m "[]" x] by (simp add: n)
    next
      case False
      with snoc.IH have c: "currentItem ?s = last xs" by simp
      show ?thesis
      proof (cases "last xs = x")
        case True
        with c have "stretchLength ?s' = stretchLength ?s + 1"
          by (simp add: s' stretchLength_loopBody)
        moreover have "m \<le> stretchLength ?s \<longleftrightarrow> m = 0 \<or> endsWithStretch m xs"
          using snoc.IH by (cases "m = 0") auto
        ultimately show ?thesis
          using False True by (simp add: n endsWithStretch_snoc_Suc)
      next
        case neq: False
        with c have "stretchLength ?s' = 1"
          by (simp add: s' stretchLength_loopBody)
        with neq show ?thesis
          by (simp add: n endsWithStretch_snoc_Suc)
      qed
    qed
  qed
  have lab: "label ?s' = (if hasExactStretch stretchLengthThreshold (xs @ [x]) then 1 else 0)"
  proof -
    have "label ?s' = (if endsWithStretch stretchLengthThreshold (xs @ [x]) then 1 else label ?s)"
      using len [OF threshold_pos] by (simp add: s' label_loopBody)
    also have "\<dots> = (if hasExactStretch stretchLengthThreshold (xs @ [x]) then 1 else 0)"
      using snoc.IH by (simp add: hasExactStretch_snoc [OF threshold_pos])
    finally show ?thesis .
  qed
  from cur len lab show ?case by simp
qed

lemma label_scan_initial:
  "label (scan initialGenState xs) = (if hasExactStretch stretchLengthThreshold xs then 1 else 0)"
  using scan_invariant [of xs] by simp

lemma hasStretch_iff_exact: "hasStretch T xs \<longleftrightarrow> hasExactStretch T xs"
proof
  assume "hasStretch T xs"
  then obtain n d pre post where "T \<le> n" and xs: "xs = pre @ replicate n d @ post"
    by (auto simp: hasStretch_def)
  then have "replicate n d = replicate T d @ replicate (n - T) d"
    by (simp flip: replicate_add)
  with xs have "xs = pre @ replicate T d @ (replicate (n - T) d @ post)"
    by simp
  then show "hasExactStretch T xs"
    unfolding hasExactStretch_def by blast
next
  assume "hasExactStretch T xs"
  then show "hasStretch T xs"
    unfolding hasExactStretch_def hasStretch_def by blast
qed

lemma takeWhile_eq_replicate: "takeWhile (\<lambda>y. y = x) xs = replicate (length (takeWhile (\<lambda>y. y = x) xs)) x"
  by (induction xs) auto

lemma run_at_head:
  "m \<le> length (takeWhile (\<lambda>y. y = x) xs) \<longleftrightarrow> (\<exists>post. xs = replicate m x @ post)"
proof
  let ?l = "length (takeWhile (\<lambda>y. y = x) xs)"
  assume le: "m \<le> ?l"
  have "xs = replicate ?l x @ dropWhile (\<lambda>y. y = x) xs"
    using takeWhile_eq_replicate [of x xs] takeWhile_dropWhile_id [of "\<lambda>y. y = x" xs] by simp
  moreover from le have "replicate ?l x = replicate m x @ replicate (?l - m) x"
    by (simp flip: replicate_add)
  ultimately have "xs = replicate m x @ (replicate (?l - m) x @ dropWhile (\<lambda>y. y = x) xs)"
    by simp
  then show "\<exists>post. xs = replicate m x @ post" ..
next
  assume "\<exists>post. xs = replicate m x @ post"
  then obtain post where "xs = replicate m x @ post" ..
  moreover have "takeWhile (\<lambda>y. y = x) (replicate m x @ post) = replicate m x @ takeWhile (\<lambda>y. y = x) post"
    by (induction m) auto
  ultimately have "takeWhile (\<lambda>y. y = x) xs = replicate m x @ takeWhile (\<lambda>y. y = x) post"
    by simp
  then show "m \<le> length (takeWhile (\<lambda>y. y = x) xs)"
    by simp
qed

lemma hasExactStretch_Cons:
  "hasExactStretch (Suc m) (x # xs) \<longleftrightarrow> (\<exists>post. xs = replicate m x @ post) \<or> hasExactStretch (Suc m) xs"
proof
  assume "hasExactStretch (Suc m) (x # xs)"
  then obtain pre d post where eq: "x # xs = pre @ replicate (Suc m) d @ post"
    unfolding hasExactStretch_def by blast
  show "(\<exists>post. xs = replicate m x @ post) \<or> hasExactStretch (Suc m) xs"
  proof (cases pre)
    case Nil
    with eq show ?thesis by auto
  next
    case (Cons y pre')
    with eq have "xs = pre' @ replicate (Suc m) d @ post" by simp
    then show ?thesis unfolding hasExactStretch_def by blast
  qed
next
  assume "(\<exists>post. xs = replicate m x @ post) \<or> hasExactStretch (Suc m) xs"
  then show "hasExactStretch (Suc m) (x # xs)"
  proof
    assume "\<exists>post. xs = replicate m x @ post"
    then obtain post where "xs = replicate m x @ post" ..
    then have "x # xs = [] @ replicate (Suc m) x @ post" by simp
    then show ?thesis unfolding hasExactStretch_def by blast
  next
    assume "hasExactStretch (Suc m) xs"
    then obtain pre d post where "xs = pre @ replicate (Suc m) d @ post"
      unfolding hasExactStretch_def by blast
    then have "x # xs = (x # pre) @ replicate (Suc m) d @ post" by simp
    then show ?thesis unfolding hasExactStretch_def by blast
  qed
qed

lemma maxRunLength_hasExactStretch:
  "0 < T \<Longrightarrow> T \<le> maxRunLength xs \<longleftrightarrow> hasExactStretch T xs"
proof (induction xs)
  case Nil
  then show ?case by (simp add: not_hasExactStretch_Nil)
next
  case (Cons x xs)
  from Cons.prems obtain m where T: "T = Suc m" by (cases T) auto
  have "T \<le> maxRunLength (x # xs) \<longleftrightarrow>
      m \<le> length (takeWhile (\<lambda>y. y = x) xs) \<or> T \<le> maxRunLength xs"
    by (auto simp: T)
  also have "\<dots> \<longleftrightarrow> (\<exists>post. xs = replicate m x @ post) \<or> hasExactStretch T xs"
    using Cons by (simp add: run_at_head)
  also have "\<dots> \<longleftrightarrow> hasExactStretch T (x # xs)"
    by (simp add: T hasExactStretch_Cons)
  finally show ?case .
qed

lemma upt_shift: "[0..<i + n] = [0..<i] @ map (\<lambda>j. i + j) [0..<n]"
  by (induction n) auto

lemma drawnItems_add:
  "drawnItems rnd k (i + n) = drawnItems rnd k i @ drawnItems rnd (k + i) n"
  by (simp add: drawnItems_def comp_def add.assoc upt_shift del: upt_Suc)

lemma genLoop_resume:
  assumes "i \<le> len"
  shows "genLoop 0 len rnd k s = genLoop i len rnd (k + i) (fst (genLoop 0 i rnd k s))"
proof -
  from assms have "drawnItems rnd k len = drawnItems rnd k i @ drawnItems rnd (k + i) (len - i)"
    using drawnItems_add [of rnd k i "len - i"] by simp
  with assms show ?thesis
    by (simp add: genLoop_scan scan_append)
qed

lemma generateSequenceAndLabel_scan:
  "generateSequenceAndLabel len rnd k =
     ((drawnItems rnd k len, label (scan initialGenState (drawnItems rnd k len))), k + len)"
  by (simp add: generateSequenceAndLabel_def genLoop_scan sequence_scan initialGenState_def)

lemma drawnItems_binary: "d \<in> set (drawnItems rnd k n) \<Longrightarrow> d = 0 \<or> d = 1"
  by (auto simp: drawnItems_def drawItem_def)

lemma label_scan_hasStretch:
  "label (scan initialGenState xs) = (if hasStretch stretchLengthThreshold xs then 1 else 0)"
  by (simp add: label_scan_initial hasStretch_iff_exact)

text \<open>
  C1. For every length \<open>N\<close> and every sequence of random draws,
  \<^verbatim>\<open>generateSequenceAndLabel\<close> returns \<open>N\<close> digits, each 0 or 1, and a label that is 1 if
  the sequence has a run of one repeated digit of length at least the threshold (4), and 0
  if it has none.
\<close>

theorem generateSequenceAndLabel_label:
  assumes "generateSequenceAndLabel N rnd k = ((sq, lab), k')"
  shows "length sq = N \<and> (\<forall>d \<in> set sq. d = 0 \<or> d = 1)
       \<and> (lab = 1 \<longleftrightarrow> hasStretch stretchLengthThreshold sq)
       \<and> (lab = 0 \<longleftrightarrow> \<not> hasStretch stretchLengthThreshold sq)"
proof -
  from assms have sq: "sq = drawnItems rnd k N"
    and lab: "lab = label (scan initialGenState (drawnItems rnd k N))"
    by (auto simp: generateSequenceAndLabel_scan)
  from sq have "length sq = N" by simp
  moreover from sq have "\<forall>d \<in> set sq. d = 0 \<or> d = 1"
    using drawnItems_binary by blast
  moreover from sq lab have "lab = (if hasStretch stretchLengthThreshold sq then 1 else 0)"
    by (simp add: label_scan_hasStretch)
  ultimately show ?thesis by simp
qed

theorem generateSequenceAndLabel_label_witness:
  "generateSequenceAndLabel 5 sampleDraws 0 = (([0, 1, 1, 1, 1], 1), 5)
   \<and> hasStretch stretchLengthThreshold [0, 1, 1, 1, 1]"
proof -
  have run: "generateSequenceAndLabel 5 sampleDraws 0 = (([0, 1, 1, 1, 1], 1), 5)"
    by code_simp
  from generateSequenceAndLabel_label [OF run] have "hasStretch stretchLengthThreshold [0, 1, 1, 1, 1]"
    by simp
  with run show ?thesis by simp
qed

text \<open>
  C7. With length 1 (and the threshold 4) the label is 0 whatever is drawn.
\<close>

theorem generateSequenceAndLabel_single:
  "snd (fst (generateSequenceAndLabel 1 rnd k)) = 0 \<and> length (fst (fst (generateSequenceAndLabel 1 rnd k))) = 1"
  by (simp add: generateSequenceAndLabel_scan drawnItems_def loopBody_def markLabel_def
      trackStretch_def pushItem_def initialGenState_def stretchLengthThreshold_def)

lemma label_loopBody_keeps: "label s = 1 \<Longrightarrow> label (loopBody x s) = 1"
  by (simp add: label_loopBody)

lemma label_scan_keeps: "label s = 1 \<Longrightarrow> label (scan s xs) = 1"
  by (induction xs arbitrary: s) (auto simp: label_loopBody_keeps)

lemma stretch_reached_labelled:
  assumes "stretchLengthThreshold \<le> stretchLength (scan initialGenState xs)"
  shows "label (scan initialGenState xs) = 1"
proof (cases xs rule: rev_cases)
  case Nil
  with assms show ?thesis
    using threshold_pos by (simp add: initialGenState_def)
next
  case (snoc ys y)
  with assms show ?thesis
    by (simp add: scan_snoc label_loopBody)
qed

text \<open>
  C6. Let \<open>si\<close> and \<open>sj\<close> be the states of the loop of length \<open>len\<close> after \<open>i \<le> j\<close>
  iterations (the loop resumed from either finishes as the full loop does). An iteration
  that leaves the run length at or above the threshold leaves the label at 1; a label that
  is 1 after \<open>i\<close> iterations is 1 after every later iteration and at the end; and the final
  label is 1 exactly when the longest run of the sequence is at least the threshold.
\<close>

theorem label_never_resets:
  assumes "i \<le> j" and "j \<le> len"
    and "genLoop 0 i rnd k initialGenState = (si, ki)"
    and "genLoop 0 j rnd k initialGenState = (sj, kj)"
    and "genLoop 0 len rnd k initialGenState = (s, k')"
  shows "genLoop i len rnd ki si = (s, k')
       \<and> genLoop j len rnd kj sj = (s, k')
       \<and> (stretchLengthThreshold \<le> stretchLength si \<longrightarrow> label si = 1)
       \<and> (label si = 1 \<longrightarrow> label sj = 1 \<and> label s = 1)
       \<and> (label s = 1 \<longleftrightarrow> stretchLengthThreshold \<le> maxRunLength (sequence s))
       \<and> (label s = 0 \<longleftrightarrow> maxRunLength (sequence s) < stretchLengthThreshold)"
proof -
  from assms have si: "si = scan initialGenState (drawnItems rnd k i)" and ki: "ki = k + i"
    and sj: "sj = scan initialGenState (drawnItems rnd k j)" and kj: "kj = k + j"
    and s: "s = scan initialGenState (drawnItems rnd k len)"
    by (simp_all add: genLoop_scan)
  from assms have "i \<le> len" by simp
  from genLoop_resume [OF this, of rnd k initialGenState] assms
  have r1: "genLoop i len rnd ki si = (s, k')" by (simp add: ki)
  from genLoop_resume [OF \<open>j \<le> len\<close>, of rnd k initialGenState] assms
  have r2: "genLoop j len rnd kj sj = (s, k')" by (simp add: kj)
  have reach: "stretchLengthThreshold \<le> stretchLength si \<longrightarrow> label si = 1"
    unfolding si by (simp add: stretch_reached_labelled)
  have "drawnItems rnd k j = drawnItems rnd k i @ drawnItems rnd (k + i) (j - i)"
    using drawnItems_add [of rnd k i "j - i"] \<open>i \<le> j\<close> by simp
  then have sj': "sj = scan si (drawnItems rnd (k + i) (j - i))"
    by (simp add: si sj scan_append)
  have "drawnItems rnd k len = drawnItems rnd k i @ drawnItems rnd (k + i) (len - i)"
    using drawnItems_add [of rnd k i "len - i"] \<open>i \<le> len\<close> by simp
  then have s': "s = scan si (drawnItems rnd (k + i) (len - i))"
    by (simp add: si s scan_append)
  have keep: "label si = 1 \<longrightarrow> label sj = 1 \<and> label s = 1"
    by (simp add: sj' s' label_scan_keeps)
  have seq: "sequence s = drawnItems rnd k len"
    by (simp add: s sequence_scan initialGenState_def)
  have "label s = (if stretchLengthThreshold \<le> maxRunLength (sequence s) then 1 else 0)"
    unfolding seq by (simp add: s label_scan_initial maxRunLength_hasExactStretch [OF threshold_pos])
  then have final: "(label s = 1 \<longleftrightarrow> stretchLengthThreshold \<le> maxRunLength (sequence s))
       \<and> (label s = 0 \<longleftrightarrow> maxRunLength (sequence s) < stretchLengthThreshold)"
    by auto
  from r1 r2 reach keep final show ?thesis by simp
qed

theorem label_never_resets_witness:
  "genLoop 0 5 sampleDraws 0 initialGenState =
     (\<lparr>sequence = [0, 1, 1, 1, 1], currentItem = 1, stretchLength = 4, label = 1\<rparr>, 5)
   \<and> genLoop 0 6 sampleDraws 0 initialGenState =
     (\<lparr>sequence = [0, 1, 1, 1, 1, 0], currentItem = 0, stretchLength = 1, label = 1\<rparr>, 6)
   \<and> genLoop 0 7 sampleDraws 0 initialGenState =
     (\<lparr>sequence = [0, 1, 1, 1, 1, 0, 1], currentItem = 1, stretchLength = 1, label = 1\<rparr>, 7)
   \<and> genLoop 5 7 sampleDraws 5 \<lparr>sequence = [0, 1, 1, 1, 1], currentItem = 1, stretchLength = 4, label = 1\<rparr> =
     (\<lparr>sequence = [0, 1, 1, 1, 1, 0, 1], currentItem = 1, stretchLength = 1, label = 1\<rparr>, 7)
   \<and> stretchLengthThreshold \<le> maxRunLength [0, 1, 1, 1, 1, 0, 1]"
proof -
  have a: "genLoop 0 5 sampleDraws 0 initialGenState =
     (\<lparr>sequence = [0, 1, 1, 1, 1], currentItem = 1, stretchLength = 4, label = 1\<rparr>, 5)"
    by code_simp
  have b: "genLoop 0 6 sampleDraws 0 initialGenState =
     (\<lparr>sequence = [0, 1, 1, 1, 1, 0], currentItem = 0, stretchLength = 1, label = 1\<rparr>, 6)"
    by code_simp
  have c: "genLoop 0 7 sampleDraws 0 initialGenState =
     (\<lparr>sequence = [0, 1, 1, 1, 1, 0, 1], currentItem = 1, stretchLength = 1, label = 1\<rparr>, 7)"
    by code_simp
  have le: "(5::nat) \<le> 6" "(6::nat) \<le> 7" by simp_all
  from label_never_resets [OF le a b c] a b c show ?thesis by simp
qed

section \<open>Properties of the dataset builder and of the encoding\<close>

lemma length_oneHot [simp]: "length (oneHot d) = 2"
  by (simp add: oneHot_def)

lemma length_oneHotSeq [simp]: "length (oneHotSeq sq) = 2 * length sq"
  by (induction sq) (auto simp: oneHotSeq_def)

lemma oneHotSeq_Cons: "oneHotSeq (d # sq) = oneHot d @ oneHotSeq sq"
  by (simp add: oneHotSeq_def)

lemma oneHotSeq_Nil [simp]: "oneHotSeq [] = []"
  by (simp add: oneHotSeq_def)

lemma strides3 [simp]: "computeStrides [M, N, 2] = [N * 2, 2]"
  by simp

lemma locToIndex3:
  "locToIndex [N * 2, 2] [int i, int j, c] = int (i * (N * 2) + 2 * j) + c"
  by (simp add: locToIndex_def)

lemma write_oneHot:
  assumes "c = 0 \<or> c = 1"
  shows "(replicate (2 * Suc n) (0::int))[nat c := 1] = oneHot c @ replicate (2 * n) 0"
  using assms by (auto simp: oneHot_def)

lemma bufferSet_channel:
  assumes shp: "shape b = [M, N, 2]"
    and c: "c = 0 \<or> c = 1"
    and v: "vals b = P @ replicate (2 * Suc n) 0 @ C"
    and P: "length P = i * (N * 2) + 2 * j"
  shows "bufferSet 1 [int i, int j, c] b = Inr (b\<lparr>vals := P @ oneHot c @ replicate (2 * n) 0 @ C\<rparr>)"
proof -
  let ?idx = "int (i * (N * 2) + 2 * j) + c"
  let ?R = "replicate (2 * Suc n) (0::int)"
  have "?idx = int (length P) + c"
    by (simp only: P)
  with c have idx: "nat ?idx = length P + nat c" and nonneg: "0 \<le> ?idx"
    by auto
  from c have cR: "nat c < length ?R" by auto
  have bound: "?idx < int (length (vals b))"
    using c \<open>?idx = int (length P) + c\<close> by (auto simp: v)
  have mid: "(P @ R @ C)[length P + m := 1] = P @ R[m := 1] @ C" if "m < length R" for R :: "int list" and m
    using that by (simp add: list_update_append)
  have "(vals b)[nat ?idx := 1] = P @ ?R[nat c := 1] @ C"
    unfolding idx v by (rule mid [OF cR])
  also have "\<dots> = P @ oneHot c @ replicate (2 * n) 0 @ C"
    unfolding write_oneHot [OF c] by simp
  finally have upd: "(vals b)[nat ?idx := 1] = P @ oneHot c @ replicate (2 * n) 0 @ C" .
  show ?thesis
    using bound nonneg upd by (simp add: bufferSet_def shp locToIndex3 Let_def)
qed

lemma encodeLoop_fill:
  assumes "shape b = [M, N, 2]" and "length sq = N" and "\<forall>d \<in> set sq. d = 0 \<or> d = 1"
    and "j \<le> N" and "vals b = P @ replicate (2 * (N - j)) 0 @ C"
    and "length P = i * (N * 2) + 2 * j"
  shows "encodeLoop j N i sq b = Inr (b\<lparr>vals := P @ oneHotSeq (drop j sq) @ C\<rparr>)"
  using assms
proof (induction "N - j" arbitrary: j b P)
  case 0
  then have "j = N" by simp
  with 0 show ?case
    by (subst encodeLoop.simps) simp
next
  case (Suc n)
  then have jN: "j < N" and n: "N - j = Suc n" "N - Suc j = n" by simp_all
  let ?c = "sq ! j"
  from jN Suc.prems have c: "?c = 0 \<or> ?c = 1" by simp
  let ?b' = "b\<lparr>vals := (P @ oneHot ?c) @ replicate (2 * (N - Suc j)) 0 @ C\<rparr>"
  have set: "bufferSet 1 [int i, int j, ?c] b = Inr ?b'"
    using bufferSet_channel [OF Suc.prems(1) c _ Suc.prems(6), of n C] Suc.prems(5) n by simp
  have "encodeLoop (Suc j) N i sq ?b' = Inr (?b'\<lparr>vals := (P @ oneHot ?c) @ oneHotSeq (drop (Suc j) sq) @ C\<rparr>)"
    using Suc.hyps(1) [of "Suc j" ?b' "P @ oneHot ?c"] Suc.prems jN n by simp
  moreover have "drop j sq = ?c # drop (Suc j) sq"
    using jN Suc.prems(2) by (simp add: Cons_nth_drop_Suc)
  ultimately have "encodeLoop (Suc j) N i sq ?b' = Inr (b\<lparr>vals := P @ oneHotSeq (drop j sq) @ C\<rparr>)"
    by (simp add: oneHotSeq_Cons)
  with set jN Suc.prems(2) show ?case
    by (subst encodeLoop.simps) (simp add: arrayGet_def)
qed

lemma generatedExamples_0 [simp]: "generatedExamples 0 len rnd k = []"
  by (simp add: generatedExamples_def)

lemma generatedExamples_Suc:
  "generatedExamples (Suc n) len rnd k =
     fst (generateSequenceAndLabel len rnd k) # generatedExamples n len rnd (k + len)"
proof -
  have "[0..<Suc n] = 0 # map Suc [0..<n]"
    by (simp add: upt_conv_Cons map_Suc_upt del: upt_Suc)
  then show ?thesis
    by (simp add: generatedExamples_def comp_def add.assoc del: upt_Suc)
qed

lemma length_generatedExamples [simp]: "length (generatedExamples n len rnd k) = n"
  by (simp add: generatedExamples_def)

lemma generatedExamples_nth:
  "i < n \<Longrightarrow> generatedExamples n len rnd k ! i = fst (generateSequenceAndLabel len rnd (k + i * len))"
  by (simp add: generatedExamples_def)

lemma generatedExamples_props:
  assumes "(sq, lab) \<in> set (generatedExamples n len rnd k)"
  shows "length sq = len" and "\<forall>d \<in> set sq. d = 0 \<or> d = 1" and "lab = 0 \<or> lab = 1"
    and "lab = 1 \<longleftrightarrow> hasStretch stretchLengthThreshold sq"
proof -
  from assms obtain m where "fst (generateSequenceAndLabel len rnd (k + m * len)) = (sq, lab)"
    by (auto simp: generatedExamples_def)
  then obtain k' where g: "generateSequenceAndLabel len rnd (k + m * len) = ((sq, lab), k')"
    by (cases "generateSequenceAndLabel len rnd (k + m * len)") auto
  then have sq: "sq = drawnItems rnd (k + m * len) len"
    and lab: "lab = label (scan initialGenState sq)"
    by (auto simp: generateSequenceAndLabel_scan)
  from sq show "length sq = len" by simp
  from sq show "\<forall>d \<in> set sq. d = 0 \<or> d = 1"
    using drawnItems_binary by blast
  from lab show "lab = 0 \<or> lab = 1" and "lab = 1 \<longleftrightarrow> hasStretch stretchLengthThreshold sq"
    by (simp_all add: label_scan_hasStretch)
qed

lemma bufferSet_label:
  assumes shp: "shape b = [M, 1]"
    and v: "vals b = Y @ replicate (Suc n) 0"
    and Y: "length Y = i"
  shows "bufferSet lab [int i, 0] b = Inr (b\<lparr>vals := (Y @ [lab]) @ replicate n 0\<rparr>)"
proof -
  have "locToIndex (computeStrides [M, 1]) [int i, 0] = int i"
    by (simp add: locToIndex_def)
  moreover have "(vals b)[i := lab] = (Y @ [lab]) @ replicate n 0"
    using Y by (simp add: v list_update_append)
  ultimately show ?thesis
    using Y by (simp add: bufferSet_def shp v Let_def)
qed

lemma datasetLoop_fill:
  assumes "shape sb = [M, N, 2]" and "shape lb = [M, 1]" and "i \<le> M"
    and "vals sb = X @ replicate (2 * (N * (M - i))) 0" and "length X = i * (N * 2)"
    and "vals lb = Y @ replicate (M - i) 0" and "length Y = i"
  shows "datasetLoop i M N rnd k sb lb =
     Inr (sb\<lparr>vals := X @ concat (map (oneHotSeq \<circ> fst) (generatedExamples (M - i) N rnd k))\<rparr>,
          lb\<lparr>vals := Y @ map snd (generatedExamples (M - i) N rnd k)\<rparr>,
          k + (M - i) * N)"
  using assms
proof (induction "M - i" arbitrary: i k sb lb X Y)
  case 0
  then have "i = M" by simp
  with 0 show ?case
    by (subst datasetLoop.simps) simp
next
  case (Suc n)
  then have iM: "i < M" and n: "M - i = Suc n" "M - Suc i = n" by simp_all
  obtain sq lab k' where g: "generateSequenceAndLabel N rnd k = ((sq, lab), k')"
    by (metis prod.exhaust)
  then have k': "k' = k + N" and sq: "sq = drawnItems rnd k N"
    by (auto simp: generateSequenceAndLabel_scan)
  from sq have len: "length sq = N" and bin: "\<forall>d \<in> set sq. d = 0 \<or> d = 1"
    using drawnItems_binary by auto
  let ?sb = "sb\<lparr>vals := (X @ oneHotSeq sq) @ replicate (2 * (N * (M - Suc i))) 0\<rparr>"
  let ?lb = "lb\<lparr>vals := (Y @ [lab]) @ replicate (M - Suc i) 0\<rparr>"
  have "replicate (2 * (N * (M - i))) (0::int) = replicate (2 * (N - 0)) 0 @ replicate (2 * (N * n)) 0"
    by (simp add: n flip: replicate_add)
  with Suc.prems have "vals sb = X @ replicate (2 * (N - 0)) 0 @ replicate (2 * (N * n)) 0"
    by simp
  from encodeLoop_fill [OF Suc.prems(1) len bin _ this, of i] Suc.prems(5)
  have enc: "encodeLoop 0 N i sq sb = Inr ?sb"
    by (simp add: n)
  have lab: "bufferSet lab [int i, 0] lb = Inr ?lb"
    using bufferSet_label [OF Suc.prems(2) _ Suc.prems(7), of n lab] Suc.prems(6) n by simp
  have "datasetLoop (Suc i) M N rnd k' ?sb ?lb =
     Inr (?sb\<lparr>vals := (X @ oneHotSeq sq) @ concat (map (oneHotSeq \<circ> fst) (generatedExamples (M - Suc i) N rnd k'))\<rparr>,
          ?lb\<lparr>vals := (Y @ [lab]) @ map snd (generatedExamples (M - Suc i) N rnd k')\<rparr>,
          k' + (M - Suc i) * N)"
    using Suc.hyps(1) [of "Suc i" ?sb ?lb "X @ oneHotSeq sq" "Y @ [lab]" k'] Suc.prems iM n len
    by simp
  then have "datasetLoop (Suc i) M N rnd k' ?sb ?lb =
     Inr (sb\<lparr>vals := X @ concat (map (oneHotSeq \<circ> fst) (generatedExamples (M - i) N rnd k))\<rparr>,
          lb\<lparr>vals := Y @ map snd (generatedExamples (M - i) N rnd k)\<rparr>,
          k + (M - i) * N)"
    by (simp add: n generatedExamples_Suc g k')
  with iM g enc lab show ?case
    by (subst datasetLoop.simps) simp
qed

lemma tf_buffer_naturals:
  "tf_buffer (map (\<lambda>d. Num (int d)) shp) = Inr \<lparr>shape = shp, vals = replicate (prod_list shp) 0\<rparr>"
  by (simp add: tf_buffer_def nonNegativeInteger_def dimension_def list_all_iff comp_def)

lemma generateDataset_eq:
  "generateDataset (Num (int M)) (Num (int N)) rnd k =
     Inr ((\<lparr>shape = [M, N, 2], vals = concat (map (oneHotSeq \<circ> fst) (generatedExamples M N rnd k))\<rparr>,
           \<lparr>shape = [M, 1], vals = map snd (generatedExamples M N rnd k)\<rparr>),
          k + M * N)"
proof -
  let ?sb = "\<lparr>shape = [M, N, 2], vals = replicate (M * (N * 2)) (0::int)\<rparr>"
  let ?lb = "\<lparr>shape = [M, 1], vals = replicate M (0::int)\<rparr>"
  have sb: "tf_buffer [Num (int M), Num (int N), Num 2] = Inr ?sb"
    using tf_buffer_naturals [of "[M, N, 2]"] by simp
  have lb: "tf_buffer [Num (int M), Num 1] = Inr ?lb"
    using tf_buffer_naturals [of "[M, 1]"] by simp
  have "datasetLoop 0 M N rnd k ?sb ?lb =
     Inr (?sb\<lparr>vals := [] @ concat (map (oneHotSeq \<circ> fst) (generatedExamples (M - 0) N rnd k))\<rparr>,
          ?lb\<lparr>vals := [] @ map snd (generatedExamples (M - 0) N rnd k)\<rparr>,
          k + (M - 0) * N)"
    by (rule datasetLoop_fill) (simp_all add: mult.commute mult.left_commute)
  then show ?thesis
    by (simp add: generateDataset_def sb lb toTensor_def dimension_def)
qed

lemma getInput_eq:
  "getInput = Inr \<lparr>shape = [3, 10, 2], vals = concat (map oneHotSeq inputs)\<rparr>"
  by code_simp

lemma nth_oneHotSeq:
  "j < length sq \<Longrightarrow> c < 2 \<Longrightarrow> oneHotSeq sq ! (2 * j + c) = oneHot (sq ! j) ! c"
proof (induction sq arbitrary: j)
  case Nil
  then show ?case by simp
next
  case (Cons d sq)
  show ?case
  proof (cases j)
    case 0
    with Cons.prems show ?thesis
      by (simp add: oneHotSeq_Cons nth_append)
  next
    case (Suc j')
    with Cons.prems have "oneHotSeq sq ! (2 * j' + c) = oneHot (sq ! j') ! c"
      using Cons.IH [of j'] by simp
    moreover have "oneHotSeq (d # sq) ! (2 * j + c) = oneHotSeq sq ! (2 * j' + c)"
      by (simp add: Suc oneHotSeq_Cons nth_append)
    ultimately show ?thesis
      by (simp add: Suc)
  qed
qed

lemma tensorGet_block:
  assumes shp: "shape t = [M, N, 2]"
    and v: "vals t = P @ oneHotSeq sq @ C" and P: "length P = i * (N * 2)"
    and len: "length sq = N" and i: "i < M" and j: "j < N" and c: "c = 0 \<or> c = 1"
  shows "tensorGet t [int i, int j, c] = Some (oneHot (sq ! j) ! nat c)"
proof -
  let ?idx = "int (i * (N * 2) + 2 * j) + c"
  have "?idx = int (length P + 2 * j) + c"
    by (simp only: P)
  with c have idx: "nat ?idx = length P + (2 * j + nat c)"
    by auto
  from c have cn: "nat c < 2" by auto
  with j len have inner: "2 * j + nat c < length (oneHotSeq sq)"
    by simp
  have "vals t ! nat ?idx = (oneHotSeq sq @ C) ! (2 * j + nat c)"
    unfolding idx v by (simp only: nth_append_length_plus)
  also have "\<dots> = oneHotSeq sq ! (2 * j + nat c)"
    using inner by (simp add: nth_append)
  also have "\<dots> = oneHot (sq ! j) ! nat c"
    using j len cn by (simp add: nth_oneHotSeq)
  finally have val: "vals t ! nat ?idx = oneHot (sq ! j) ! nat c" .
  have bound: "nat ?idx < length (vals t)"
    unfolding idx v using inner by simp
  have ok: "list_all2 (\<lambda>l d. 0 \<le> l \<and> l < int d) [int i, int j, c] [M, N, 2]"
    using i j c by auto
  show ?thesis
    using val bound ok by (simp add: tensorGet_def shp locToIndex3 Let_def)
qed

lemma oneHot_nth:
  "d = 0 \<or> d = 1 \<Longrightarrow> oneHot d ! nat d = 1 \<and> oneHot d ! nat (1 - d) = 0"
  by (auto simp: oneHot_def)

lemma decodeOneHot_block:
  assumes "shape t = [M, N, 2]"
    and "vals t = P @ oneHotSeq sq @ C" and "length P = i * (N * 2)"
    and "length sq = N" and "i < M" and "j < N" and d: "sq ! j = 0 \<or> sq ! j = 1"
  shows "decodeOneHot t i j = Some (sq ! j)"
proof -
  have g: "tensorGet t [int i, int j, c] = Some (oneHot (sq ! j) ! nat c)" if "c = 0 \<or> c = 1" for c
    using tensorGet_block [OF assms(1-6) that] .
  from d show ?thesis
    by (auto simp: decodeOneHot_def g oneHot_def)
qed

lemma decodeRow_block:
  assumes "shape t = [M, N, 2]"
    and "vals t = P @ oneHotSeq sq @ C" and "length P = i * (N * 2)"
    and "length sq = N" and "i < M" and bin: "\<forall>d \<in> set sq. d = 0 \<or> d = 1"
  shows "decodeRow t i = map Some sq"
proof (rule nth_equalityI)
  show "length (decodeRow t i) = length (map Some sq)"
    by (simp add: decodeRow_def assms)
next
  fix j assume "j < length (decodeRow t i)"
  then have j: "j < N" by (simp add: decodeRow_def assms)
  with bin assms(4) have "sq ! j = 0 \<or> sq ! j = 1" by simp
  from decodeOneHot_block [OF assms(1-5) j this] j assms(4)
  show "decodeRow t i ! j = map Some sq ! j"
    by (simp add: decodeRow_def assms(1))
qed

lemma length_concat_rows:
  "\<forall>r \<in> set rows. length r = N \<Longrightarrow> length (concat (map oneHotSeq rows)) = length rows * (N * 2)"
  by (induction rows) auto

lemma concat_rows_split:
  assumes "i < length rows"
  shows "concat (map oneHotSeq rows) =
     concat (map oneHotSeq (take i rows)) @ oneHotSeq (rows ! i) @ concat (map oneHotSeq (drop (Suc i) rows))"
proof -
  from assms have "rows = take i rows @ rows ! i # drop (Suc i) rows"
    by (rule id_take_nth_drop)
  then have "concat (map oneHotSeq rows) = concat (map oneHotSeq (take i rows @ rows ! i # drop (Suc i) rows))"
    by simp
  then show ?thesis by simp
qed

lemma rows_tensor_block:
  assumes "\<forall>r \<in> set rows. length r = N" and "i < length rows"
  shows "\<exists>P C. concat (map oneHotSeq rows) = P @ oneHotSeq (rows ! i) @ C \<and> length P = i * (N * 2)"
proof -
  have "\<forall>r \<in> set (take i rows). length r = N"
    using assms(1) by (meson in_set_takeD)
  then have "length (concat (map oneHotSeq (take i rows))) = length (take i rows) * (N * 2)"
    by (rule length_concat_rows)
  with assms(2) have "length (concat (map oneHotSeq (take i rows))) = i * (N * 2)"
    by simp
  with concat_rows_split [OF assms(2)] show ?thesis by blast
qed

lemma generatedExamples_entries:
  assumes "i < M"
  shows "length (fst (generatedExamples M N rnd k ! i)) = N"
    and "\<forall>d \<in> set (fst (generatedExamples M N rnd k ! i)). d = 0 \<or> d = 1"
proof -
  obtain sq lab where e: "generatedExamples M N rnd k ! i = (sq, lab)"
    by (metis prod.exhaust)
  with assms have "(sq, lab) \<in> set (generatedExamples M N rnd k)"
    by (metis length_generatedExamples nth_mem)
  from generatedExamples_props(1,2) [OF this] e
  show "length (fst (generatedExamples M N rnd k ! i)) = N"
    and "\<forall>d \<in> set (fst (generatedExamples M N rnd k ! i)). d = 0 \<or> d = 1"
    by simp_all
qed

lemma oneHotSeq_binary: "v \<in> set (oneHotSeq sq) \<Longrightarrow> v = 0 \<or> v = 1"
  by (auto simp: oneHotSeq_def oneHot_def split: if_splits)

lemma sum_list_oneHotSeq:
  "\<forall>d \<in> set sq. d = 0 \<or> d = 1 \<Longrightarrow> sum_list (oneHotSeq sq) = int (length sq)"
  by (induction sq) (auto simp: oneHotSeq_Cons oneHot_def)

lemma generateDataset_rows:
  "generateDataset (Num (int M)) (Num (int N)) rnd k =
     Inr ((\<lparr>shape = [M, N, 2], vals = concat (map oneHotSeq (map fst (generatedExamples M N rnd k)))\<rparr>,
           \<lparr>shape = [M, 1], vals = map snd (generatedExamples M N rnd k)\<rparr>),
          k + M * N)"
  by (simp add: generateDataset_eq)

lemma generated_rows_uniform:
  "\<forall>r \<in> set (map fst (generatedExamples M N rnd k)). length r = N"
  using generatedExamples_props(1) by fastforce

text \<open>
  C4. For all natural numbers \<open>M\<close> and \<open>N\<close> (0 included) \<^verbatim>\<open>generateDataset\<close> returns, without error, the
  tensors of exactly \<open>M\<close> generated examples: inputs of shape \<open>(M, N, 2)\<close> whose \<open>M * N * 2\<close>
  entries are the one-hot encodings of the generated digits, and labels of shape \<open>(M, 1)\<close>
  whose \<open>M\<close> entries are the generated labels, each 0 or 1; every generated sequence has
  \<open>N\<close> digits, each 0 or 1.
\<close>

theorem generateDataset_shape:
  "\<exists>xs ys. generateDataset (Num (int M)) (Num (int N)) rnd k = Inr ((xs, ys), k + M * N)
     \<and> length (generatedExamples M N rnd k) = M
     \<and> (\<forall>(sq, lab) \<in> set (generatedExamples M N rnd k).
           length sq = N \<and> (\<forall>d \<in> set sq. d = 0 \<or> d = 1))
     \<and> shape xs = [M, N, 2] \<and> length (vals xs) = M * N * 2
     \<and> vals xs = concat (map (oneHotSeq \<circ> fst) (generatedExamples M N rnd k))
     \<and> (\<forall>v \<in> set (vals xs). v = 0 \<or> v = 1)
     \<and> shape ys = [M, 1] \<and> length (vals ys) = M
     \<and> vals ys = map snd (generatedExamples M N rnd k)
     \<and> (\<forall>l \<in> set (vals ys). l = 0 \<or> l = 1)"
proof -
  let ?ex = "generatedExamples M N rnd k"
  let ?xs = "\<lparr>shape = [M, N, 2], vals = concat (map (oneHotSeq \<circ> fst) ?ex)\<rparr>"
  let ?ys = "\<lparr>shape = [M, 1], vals = map snd ?ex\<rparr>"
  have run: "generateDataset (Num (int M)) (Num (int N)) rnd k = Inr ((?xs, ?ys), k + M * N)"
    by (rule generateDataset_eq)
  have ex: "\<forall>(sq, lab) \<in> set ?ex. length sq = N \<and> (\<forall>d \<in> set sq. d = 0 \<or> d = 1)"
    using generatedExamples_props(1,2) by blast
  have "length (concat (map oneHotSeq (map fst ?ex))) = length (map fst ?ex) * (N * 2)"
    using generated_rows_uniform by (rule length_concat_rows)
  then have len: "length (vals ?xs) = M * N * 2"
    by simp
  have bin: "\<forall>v \<in> set (vals ?xs). v = 0 \<or> v = 1"
    using oneHotSeq_binary by auto
  have labs: "\<forall>l \<in> set (vals ?ys). l = 0 \<or> l = 1"
    using generatedExamples_props(3) by fastforce
  from run ex len bin labs show ?thesis
    by (intro exI [of _ ?xs] exI [of _ ?ys]) simp
qed

theorem generateDataset_shape_witness:
  "\<exists>xs ys. generateDataset (Num 2) (Num 5) sampleDraws 0 = Inr ((xs, ys), 10)
     \<and> shape xs = [2, 5, 2] \<and> length (vals xs) = 20 \<and> shape ys = [2, 1] \<and> length (vals ys) = 2"
  using generateDataset_shape [of 2 5 sampleDraws 0] by auto

text \<open>
  C10. In the inputs tensor of \<^verbatim>\<open>generateDataset\<close> and in that of \<^verbatim>\<open>getInput\<close>, at every
  example \<open>i\<close> and position \<open>j\<close> the digit \<open>d\<close> is 0 or 1, channel \<open>d\<close> holds 1 and the
  other channel holds 0. The entries add up to the number of positions, so no write of a
  1 fell outside its own cell.
\<close>

theorem onehot_exactly_one_channel:
  "(generateDataset (Num (int M)) (Num (int N)) rnd k = Inr ((xs, ys), k') \<longrightarrow> i < M \<longrightarrow> j < N \<longrightarrow>
      (let d = fst (generatedExamples M N rnd k ! i) ! j in
         (d = 0 \<or> d = 1)
         \<and> tensorGet xs [int i, int j, d] = Some 1
         \<and> tensorGet xs [int i, int j, 1 - d] = Some 0))
   \<and> (generateDataset (Num (int M)) (Num (int N)) rnd k = Inr ((xs, ys), k') \<longrightarrow> sum_list (vals xs) = int (M * N))
   \<and> (\<exists>t. getInput = Inr t
        \<and> sum_list (vals t) = 30
        \<and> (i < 3 \<longrightarrow> j < 10 \<longrightarrow>
            (let d = inputs ! i ! j in
               (d = 0 \<or> d = 1)
               \<and> tensorGet t [int i, int j, d] = Some 1
               \<and> tensorGet t [int i, int j, 1 - d] = Some 0)))"
proof (intro conjI impI)
  assume run: "generateDataset (Num (int M)) (Num (int N)) rnd k = Inr ((xs, ys), k')" and i: "i < M" and j: "j < N"
  let ?rows = "map fst (generatedExamples M N rnd k)"
  let ?sq = "fst (generatedExamples M N rnd k ! i)"
  from run have shp: "shape xs = [M, N, 2]" and v: "vals xs = concat (map oneHotSeq ?rows)"
    by (auto simp: generateDataset_rows)
  from i have row: "?rows ! i = ?sq" by simp
  from rows_tensor_block [OF generated_rows_uniform, of i M N rnd k] i
  obtain P C where split: "vals xs = P @ oneHotSeq ?sq @ C" and P: "length P = i * (N * 2)"
    by (auto simp: v)
  have len: "length ?sq = N" and bin: "\<forall>d \<in> set ?sq. d = 0 \<or> d = 1"
    using generatedExamples_entries [OF i] by simp_all
  from bin len j have d: "?sq ! j = 0 \<or> ?sq ! j = 1" by simp
  then have d': "1 - ?sq ! j = 0 \<or> 1 - ?sq ! j = 1" by auto
  from tensorGet_block [OF shp split P len i j d] tensorGet_block [OF shp split P len i j d'] d
  show "let d = ?sq ! j in (d = 0 \<or> d = 1)
         \<and> tensorGet xs [int i, int j, d] = Some 1
         \<and> tensorGet xs [int i, int j, 1 - d] = Some 0"
    using oneHot_nth [OF d] by (simp add: Let_def)
next
  assume run: "generateDataset (Num (int M)) (Num (int N)) rnd k = Inr ((xs, ys), k')"
  then have v: "vals xs = concat (map (oneHotSeq \<circ> fst) (generatedExamples M N rnd k))"
    by (auto simp: generateDataset_eq)
  have "sum_list (concat (map (oneHotSeq \<circ> fst) ex)) = int (length ex * N)"
    if "\<forall>(sq, lab) \<in> set ex. length sq = N \<and> (\<forall>d \<in> set sq. d = 0 \<or> d = 1)" for ex :: "(int list \<times> int) list"
    using that by (induction ex) (auto simp: sum_list_oneHotSeq)
  moreover have "\<forall>(sq, lab) \<in> set (generatedExamples M N rnd k). length sq = N \<and> (\<forall>d \<in> set sq. d = 0 \<or> d = 1)"
    using generatedExamples_props(1,2) by blast
  ultimately show "sum_list (vals xs) = int (M * N)"
    by (simp add: v)
next
  let ?t = "\<lparr>shape = [3, 10, 2], vals = concat (map oneHotSeq inputs)\<rparr>"
  have sum: "sum_list (vals ?t) = 30"
    by (simp add: inputs_def oneHotSeq_def oneHot_def)
  have cells: "let d = inputs ! i ! j in (d = 0 \<or> d = 1)
         \<and> tensorGet ?t [int i, int j, d] = Some 1
         \<and> tensorGet ?t [int i, int j, 1 - d] = Some 0" if i: "i < 3" and j: "j < 10"
  proof -
    have uni: "\<forall>r \<in> set inputs. length r = 10" and bin: "\<forall>r \<in> set inputs. \<forall>d \<in> set r. d = 0 \<or> d = 1"
      by (simp_all add: inputs_def)
    have li: "i < length inputs" using i by (simp add: inputs_def)
    from rows_tensor_block [OF uni li]
    obtain P C where split: "vals ?t = P @ oneHotSeq (inputs ! i) @ C" and P: "length P = i * (10 * 2)"
      by auto
    from uni li have len: "length (inputs ! i) = 10" by simp
    from li have "inputs ! i \<in> set inputs" by simp
    moreover from len j have "inputs ! i ! j \<in> set (inputs ! i)" by simp
    ultimately have d: "inputs ! i ! j = 0 \<or> inputs ! i ! j = 1"
      using bin by blast
    then have d': "1 - inputs ! i ! j = 0 \<or> 1 - inputs ! i ! j = 1" by auto
    have shp: "shape ?t = [3, 10, 2]" by simp
    from tensorGet_block [OF shp split P len i j d] tensorGet_block [OF shp split P len i j d'] d
    show ?thesis
      using oneHot_nth [OF d] by (simp add: Let_def)
  qed
  from sum cells show "\<exists>t. getInput = Inr t
        \<and> sum_list (vals t) = 30
        \<and> (i < 3 \<longrightarrow> j < 10 \<longrightarrow>
            (let d = inputs ! i ! j in
               (d = 0 \<or> d = 1)
               \<and> tensorGet t [int i, int j, d] = Some 1
               \<and> tensorGet t [int i, int j, 1 - d] = Some 0))"
    by (intro exI [of _ ?t]) (simp add: getInput_eq)
qed

lemma sample_example_0:
  "generateSequenceAndLabel 5 sampleDraws 0 = (([0, 1, 1, 1, 1], 1), 5)"
  by code_simp

lemma sample_example_5:
  "generateSequenceAndLabel 5 sampleDraws 5 = (([0, 1, 1, 1, 1], 1), 10)"
  by code_simp

lemma sample_examples:
  "generatedExamples 2 5 sampleDraws 0 = [([0, 1, 1, 1, 1], 1), ([0, 1, 1, 1, 1], 1)]"
proof -
  have "generatedExamples (Suc (Suc 0)) 5 sampleDraws 0 = [([0, 1, 1, 1, 1], 1), ([0, 1, 1, 1, 1], 1)]"
    by (simp add: generatedExamples_Suc sample_example_0 sample_example_5)
  then show ?thesis
    by (simp add: numeral_2_eq_2)
qed

lemma sample_dataset:
  "generateDataset (Num (int 2)) (Num (int 5)) sampleDraws 0 =
     Inr ((\<lparr>shape = [2, 5, 2],
             vals = [1, 0, 0, 1, 0, 1, 0, 1, 0, 1, 1, 0, 0, 1, 0, 1, 0, 1, 0, 1]\<rparr>,
           \<lparr>shape = [2, 1], vals = [1, 1]\<rparr>), 10)"
  unfolding generateDataset_eq by (simp add: sample_examples oneHotSeq_def oneHot_def)

theorem onehot_exactly_one_channel_witness:
  "tensorGet \<lparr>shape = [2, 5, 2],
             vals = [1, 0, 0, 1, 0, 1, 0, 1, 0, 1, 1, 0, 0, 1, 0, 1, 0, 1, 0, 1]\<rparr> [1, 2, 1] = Some 1
   \<and> tensorGet \<lparr>shape = [2, 5, 2],
             vals = [1, 0, 0, 1, 0, 1, 0, 1, 0, 1, 1, 0, 0, 1, 0, 1, 0, 1, 0, 1]\<rparr> [1, 2, 0] = Some 0
   \<and> (\<exists>t. getInput = Inr t \<and> tensorGet t [2, 6, 1] = Some 1 \<and> tensorGet t [2, 6, 0] = Some 0)"
proof -
  let ?xs = "\<lparr>shape = [2, 5, 2],
             vals = [1, 0, 0, 1, 0, 1, 0, 1, 0, 1, 1, 0, 0, 1, 0, 1, 0, 1, 0, 1]\<rparr>"
  let ?ys = "\<lparr>shape = [2, 1], vals = [1, 1]\<rparr>"
  note all = onehot_exactly_one_channel [of 2 5 sampleDraws 0 ?xs ?ys 10 1 2]
  have d1: "fst (generatedExamples 2 5 sampleDraws 0 ! 1) ! 2 = 1"
    by (simp add: sample_examples)
  have "let d = fst (generatedExamples 2 5 sampleDraws 0 ! 1) ! 2 in
         (d = 0 \<or> d = 1) \<and> tensorGet ?xs [int 1, int 2, d] = Some 1
         \<and> tensorGet ?xs [int 1, int 2, 1 - d] = Some 0"
    by (rule all [THEN conjunct1, rule_format, OF sample_dataset]) simp_all
  then have first: "tensorGet ?xs [1, 2, 1] = Some 1 \<and> tensorGet ?xs [1, 2, 0] = Some 0"
    unfolding d1 Let_def by simp
  have d2: "inputs ! 2 ! 6 = 1" by (simp add: inputs_def)
  from onehot_exactly_one_channel [of 0 0 sampleDraws 0 ?xs ?ys 0 2 6, THEN conjunct2, THEN conjunct2]
  obtain t where t: "getInput = Inr t"
    and cell: "2 < (3::nat) \<longrightarrow> 6 < (10::nat) \<longrightarrow>
            (let d = inputs ! 2 ! 6 in
               (d = 0 \<or> d = 1)
               \<and> tensorGet t [int 2, int 6, d] = Some 1
               \<and> tensorGet t [int 2, int 6, 1 - d] = Some 0)"
    by blast
  from cell have "tensorGet t [2, 6, 1] = Some 1 \<and> tensorGet t [2, 6, 0] = Some 0"
    unfolding d2 Let_def by simp
  with t first show ?thesis by blast
qed

text \<open>
  C5. Encoding is a function of the sequence alone (it makes no draws), and decoding gives
  the digits back: for a binary sequence written into row \<open>i\<close> of a fresh buffer, for every
  row of the tensor that \<^verbatim>\<open>generateDataset\<close> returns, and for the three rows of
  \<^verbatim>\<open>getInput\<close>.
\<close>

theorem onehot_roundtrip:
  "(length sq = N \<longrightarrow> (\<forall>d \<in> set sq. d = 0 \<or> d = 1) \<longrightarrow> i < M \<longrightarrow>
      (\<exists>b0 b. tf_buffer [Num (int M), Num (int N), Num 2] = Inr b0
         \<and> encodeLoop 0 N i sq b0 = Inr b \<and> decodeRow b i = map Some sq))
   \<and> (generateDataset (Num (int M)) (Num (int N)) rnd k = Inr ((xs, ys), k') \<longrightarrow> i < M \<longrightarrow>
        decodeRow xs i = map Some (fst (generatedExamples M N rnd k ! i)))
   \<and> (\<exists>t. getInput = Inr t \<and> map (decodeRow t) [0..<3] = map (map Some) inputs)"
proof (intro conjI impI)
  assume len: "length sq = N" and bin: "\<forall>d \<in> set sq. d = 0 \<or> d = 1" and i: "i < M"
  let ?P = "replicate (i * (N * 2)) (0::int)"
  let ?C = "replicate ((M - Suc i) * (N * 2)) (0::int)"
  let ?b = "\<lparr>shape = [M, N, 2], vals = replicate (M * (N * 2)) (0::int)\<rparr>"
  have fresh: "tf_buffer [Num (int M), Num (int N), Num 2] = Inr ?b"
    using tf_buffer_naturals [of "[M, N, 2]"] by simp
  from i have "M = i + 1 + (M - Suc i)" by simp
  then have "M * N * 2 = i * (N * 2) + 2 * (N - 0) + (M - Suc i) * (N * 2)"
    by (metis add_mult_distrib diff_zero mult.assoc mult.commute mult_1)
  then have "M * (N * 2) = i * (N * 2) + 2 * (N - 0) + (M - Suc i) * (N * 2)"
    by (simp add: mult.assoc)
  then have v: "vals ?b = ?P @ replicate (2 * (N - 0)) 0 @ ?C"
    by (simp flip: replicate_add)
  have shp: "shape ?b = [M, N, 2]" by simp
  have P0: "length ?P = i * (N * 2) + 2 * 0" by simp
  from encodeLoop_fill [OF shp len bin _ v P0]
  have enc: "encodeLoop 0 N i sq ?b = Inr (?b\<lparr>vals := ?P @ oneHotSeq sq @ ?C\<rparr>)"
    by simp
  have "decodeRow (?b\<lparr>vals := ?P @ oneHotSeq sq @ ?C\<rparr>) i = map Some sq"
    by (rule decodeRow_block [where P = ?P and C = ?C and M = M and N = N])
      (simp_all add: shp len i bin)
  with enc fresh show "\<exists>b0 b. tf_buffer [Num (int M), Num (int N), Num 2] = Inr b0
         \<and> encodeLoop 0 N i sq b0 = Inr b \<and> decodeRow b i = map Some sq"
    by blast
next
  assume run: "generateDataset (Num (int M)) (Num (int N)) rnd k = Inr ((xs, ys), k')" and i: "i < M"
  let ?rows = "map fst (generatedExamples M N rnd k)"
  let ?sq = "fst (generatedExamples M N rnd k ! i)"
  from run have shp: "shape xs = [M, N, 2]" and v: "vals xs = concat (map oneHotSeq ?rows)"
    by (auto simp: generateDataset_rows)
  from rows_tensor_block [OF generated_rows_uniform, of i M N rnd k] i
  obtain P C where split: "vals xs = P @ oneHotSeq ?sq @ C" and P: "length P = i * (N * 2)"
    by (auto simp: v)
  have len: "length ?sq = N" and bin: "\<forall>d \<in> set ?sq. d = 0 \<or> d = 1"
    using generatedExamples_entries [OF i] by simp_all
  show "decodeRow xs i = map Some ?sq"
    by (rule decodeRow_block [OF shp split P len i bin])
next
  have "map (decodeRow \<lparr>shape = [3, 10, 2], vals = concat (map oneHotSeq inputs)\<rparr>) [0..<3]
      = map (map Some) inputs"
    by code_simp
  then show "\<exists>t. getInput = Inr t \<and> map (decodeRow t) [0..<3] = map (map Some) inputs"
    by (simp add: getInput_eq)
qed

theorem onehot_roundtrip_witness:
  "(\<exists>b0 b. tf_buffer [Num 2, Num 5, Num 2] = Inr b0
       \<and> encodeLoop 0 5 1 [0, 1, 1, 0, 1] b0 = Inr b
       \<and> decodeRow b 1 = [Some 0, Some 1, Some 1, Some 0, Some 1])
   \<and> decodeRow \<lparr>shape = [2, 5, 2],
             vals = [1, 0, 0, 1, 0, 1, 0, 1, 0, 1, 1, 0, 0, 1, 0, 1, 0, 1, 0, 1]\<rparr> 1
       = [Some 0, Some 1, Some 1, Some 1, Some 1]"
proof -
  from onehot_roundtrip [of "[0, 1, 1, 0, 1]" 5 1 2]
  have "\<exists>b0 b. tf_buffer [Num 2, Num 5, Num 2] = Inr b0
       \<and> encodeLoop 0 5 1 [0, 1, 1, 0, 1] b0 = Inr b
       \<and> decodeRow b 1 = [Some 0, Some 1, Some 1, Some 0, Some 1]"
    by simp
  moreover from onehot_roundtrip [of "[]" 5 1 2 sampleDraws 0 _ _ 10] sample_dataset sample_examples
  have "decodeRow \<lparr>shape = [2, 5, 2],
             vals = [1, 0, 0, 1, 0, 1, 0, 1, 0, 1, 1, 0, 0, 1, 0, 1, 0, 1, 0, 1]\<rparr> 1
       = [Some 0, Some 1, Some 1, Some 1, Some 1]"
    by simp
  ultimately show ?thesis by simp
qed

text \<open>
  C2, as the code has it. \<^verbatim>\<open>generateDataset\<close> has no validation of its own, and a count
  or a length of 0 passes the library's check of the shape. With a count of 0 it returns
  tensors of shapes \<open>(0, 10, 2)\<close> and \<open>(0, 1)\<close> with no entries; with a length of 0 it
  returns three labels 0 and no inputs.
\<close>

theorem generateDataset_zero_examples_counterexample:
  "generateDataset (Num 0) (Num 10) sampleDraws 0 =
     Inr ((\<lparr>shape = [0, 10, 2], vals = []\<rparr>, \<lparr>shape = [0, 1], vals = []\<rparr>), 0)
   \<and> generateDataset (Num 3) (Num 0) sampleDraws 0 =
     Inr ((\<lparr>shape = [3, 0, 2], vals = []\<rparr>, \<lparr>shape = [3, 1], vals = [0, 0, 0]\<rparr>), 0)"
  by (simp add: generateDataset_def datasetLoop.simps encodeLoop.simps tf_buffer_def toTensor_def
      nonNegativeInteger_def dimension_def
      generateSequenceAndLabel_def genLoop.simps initialGenState_def bufferSet_def locToIndex_def
      numeral_3_eq_3)

lemma generatedExamples_empty_sequences:
  "generatedExamples M 0 rnd k = replicate M ([], 0)"
proof -
  have "fst (generateSequenceAndLabel 0 rnd k') = ([], 0)" for k'
    by (simp add: generateSequenceAndLabel_scan initialGenState_def)
  then show ?thesis
    by (simp add: generatedExamples_def map_replicate_const)
qed

lemma generateDataset_rejects:
  assumes "\<not> (nonNegativeInteger numExamples \<and> nonNegativeInteger seqLen)"
  shows "tf_buffer [numExamples, seqLen, Num 2] = Inl GenericError"
    and "generateDataset numExamples seqLen rnd k = Inl GenericError"
proof -
  from assms show first: "tf_buffer [numExamples, seqLen, Num 2] = Inl GenericError"
    by (auto simp: tf_buffer_def)
  then show "generateDataset numExamples seqLen rnd k = Inl GenericError"
    by (simp add: generateDataset_def)
qed

lemma nonNegativeInteger_cases:
  "nonNegativeInteger x \<longleftrightarrow> (\<exists>m. x = Num (int m))"
proof (cases x)
  case NaN
  then show ?thesis by (simp add: nonNegativeInteger_def)
next
  case (Num n)
  show ?thesis
  proof
    assume "nonNegativeInteger x"
    with Num have "x = Num (int (nat n))" by (simp add: nonNegativeInteger_def)
    then show "\<exists>m. x = Num (int m)" ..
  next
    assume "\<exists>m. x = Num (int m)"
    then show "nonNegativeInteger x" by (auto simp: nonNegativeInteger_def)
  qed
qed

text \<open>
  C2, amended. A negative or non-numeric example count, and a negative (or non-numeric)
  sequence length, make the dataset builder fail at once: its first buffer allocation
  throws the library's error for a bad shape, and that is the only case in which it
  fails. A count \<open>M = 0\<close> or a length \<open>N = 0\<close> is not rejected: the builder returns inputs of
  shape \<open>(M, N, 2)\<close> with no entries and \<open>M\<close> labels that are all 0, and has made no draw.
\<close>

theorem generateDataset_validation:
  "(m < 0 \<longrightarrow> generateDataset (Num m) seqLen rnd k = Inl GenericError)
   \<and> generateDataset NaN seqLen rnd k = Inl GenericError
   \<and> (n < 0 \<longrightarrow> generateDataset numExamples (Num n) rnd k = Inl GenericError)
   \<and> generateDataset numExamples NaN rnd k = Inl GenericError
   \<and> (\<not> (nonNegativeInteger numExamples \<and> nonNegativeInteger seqLen) \<longrightarrow>
        tf_buffer [numExamples, seqLen, Num 2] = Inl GenericError)
   \<and> ((\<exists>e. generateDataset numExamples seqLen rnd k = Inl e) \<longleftrightarrow>
        \<not> (nonNegativeInteger numExamples \<and> nonNegativeInteger seqLen))
   \<and> (M = 0 \<or> N = 0 \<longrightarrow>
        generateDataset (Num (int M)) (Num (int N)) rnd k =
          Inr ((\<lparr>shape = [M, N, 2], vals = []\<rparr>, \<lparr>shape = [M, 1], vals = replicate M 0\<rparr>), k))"
proof (intro conjI impI)
  assume "m < 0"
  then have "\<not> (nonNegativeInteger (Num m) \<and> nonNegativeInteger seqLen)"
    by (simp add: nonNegativeInteger_def)
  then show "generateDataset (Num m) seqLen rnd k = Inl GenericError"
    by (rule generateDataset_rejects)
next
  have "\<not> (nonNegativeInteger NaN \<and> nonNegativeInteger seqLen)"
    by (simp add: nonNegativeInteger_def)
  then show "generateDataset NaN seqLen rnd k = Inl GenericError"
    by (rule generateDataset_rejects)
next
  assume "n < 0"
  then have "\<not> (nonNegativeInteger numExamples \<and> nonNegativeInteger (Num n))"
    by (simp add: nonNegativeInteger_def)
  then show "generateDataset numExamples (Num n) rnd k = Inl GenericError"
    by (rule generateDataset_rejects)
next
  have "\<not> (nonNegativeInteger numExamples \<and> nonNegativeInteger NaN)"
    by (simp add: nonNegativeInteger_def)
  then show "generateDataset numExamples NaN rnd k = Inl GenericError"
    by (rule generateDataset_rejects)
next
  assume "\<not> (nonNegativeInteger numExamples \<and> nonNegativeInteger seqLen)"
  then show "tf_buffer [numExamples, seqLen, Num 2] = Inl GenericError"
    by (rule generateDataset_rejects)
next
  show "(\<exists>e. generateDataset numExamples seqLen rnd k = Inl e) \<longleftrightarrow>
        \<not> (nonNegativeInteger numExamples \<and> nonNegativeInteger seqLen)"
  proof (cases "nonNegativeInteger numExamples \<and> nonNegativeInteger seqLen")
    case True
    then obtain M' N' where "numExamples = Num (int M')" and "seqLen = Num (int N')"
      by (auto simp: nonNegativeInteger_cases)
    with True show ?thesis
      by (simp add: generateDataset_eq)
  next
    case False
    then have "generateDataset numExamples seqLen rnd k = Inl GenericError"
      by (rule generateDataset_rejects)
    with False show ?thesis by simp
  qed
next
  assume "M = 0 \<or> N = 0"
  then show "generateDataset (Num (int M)) (Num (int N)) rnd k =
          Inr ((\<lparr>shape = [M, N, 2], vals = []\<rparr>, \<lparr>shape = [M, 1], vals = replicate M 0\<rparr>), k)"
  proof
    assume "M = 0"
    then show ?thesis
      using generateDataset_eq [of 0 N rnd k] by simp
  next
    assume "N = 0"
    then show ?thesis
      using generateDataset_eq [of M 0 rnd k]
      by (simp add: generatedExamples_empty_sequences oneHotSeq_def)
  qed
qed

theorem generateDataset_validation_witness:
  "generateDataset (Num (- 1)) (Num 10) sampleDraws 0 = Inl GenericError
   \<and> generateDataset NaN (Num 10) sampleDraws 0 = Inl GenericError
   \<and> generateDataset (Num 5) (Num (- 3)) sampleDraws 0 = Inl GenericError
   \<and> generateDataset (Num 0) (Num (- 1)) sampleDraws 0 = Inl GenericError
   \<and> tf_buffer [Num (- 1), Num 10, Num 2] = Inl GenericError
   \<and> generateDataset (Num 0) (Num 7) sampleDraws 3 =
       Inr ((\<lparr>shape = [0, 7, 2], vals = []\<rparr>, \<lparr>shape = [0, 1], vals = []\<rparr>), 3)"
proof -
  have bad: "\<not> (nonNegativeInteger (Num (- 1)) \<and> nonNegativeInteger (Num 10))"
    by (simp add: nonNegativeInteger_def)
  note a = generateDataset_validation [of "- 1" "Num 10" sampleDraws 0 "- 3" "Num 5" 0 7]
  note b = generateDataset_validation [of "- 1" "Num 10" sampleDraws 0 "- 1" "Num 0" 0 7]
  note c = generateDataset_validation [of "- 1" "Num 10" sampleDraws 3 "- 1" "Num (- 1)" 0 7]
  from a have "generateDataset (Num (- 1)) (Num 10) sampleDraws 0 = Inl GenericError"
    and "generateDataset NaN (Num 10) sampleDraws 0 = Inl GenericError"
    and "generateDataset (Num 5) (Num (- 3)) sampleDraws 0 = Inl GenericError"
    by simp_all
  moreover from b have "generateDataset (Num 0) (Num (- 1)) sampleDraws 0 = Inl GenericError"
    by simp
  moreover from c bad have "tf_buffer [Num (- 1), Num 10, Num 2] = Inl GenericError"
    by blast
  moreover from c have "generateDataset (Num 0) (Num 7) sampleDraws 3 =
       Inr ((\<lparr>shape = [0, 7, 2], vals = []\<rparr>, \<lparr>shape = [0, 1], vals = []\<rparr>), 3)"
    by simp
  ultimately show ?thesis by simp
qed

section \<open>Properties of training, cancellation and the displayed results\<close>

lemma cancel_throws: "cancel st = Inl TypeError"
  by (simp add: cancel_def assignTo_def cancelTrainingBinding_def)

lemma cancelClick_ignored: "cancelClick st = st"
  by (simp add: cancelClick_def cancel_throws)

lemma stopTraining_cancelClick: "stopTraining (cancelClick st) = stopTraining st"
  by (simp add: cancelClick_def cancel_def assignTo_def split: binding_kind.splits)

lemma stopTraining_onEpochEnd:
  "stopTraining (onEpochEnd epoch lg st) \<longleftrightarrow> stopTraining st \<or> cancelTraining st \<or> 0.9 < val_acc lg"
  by (simp add: onEpochEnd_def Let_def)

lemma cancelTraining_onEpochEnd: "cancelTraining (onEpochEnd epoch lg st) = cancelTraining st"
  by (simp add: onEpochEnd_def Let_def)

lemma trainEpochBox_onEpochEnd: "trainEpochBox (document (onEpochEnd epoch lg st)) = epoch + 1"
  by (simp add: onEpochEnd_def Let_def)

lemma fitLoop_step:
  assumes "epoch < epochs" and "\<not> stopTraining st"
  shows "fitLoop epoch epochs L C st =
     (let st1 = (if C epoch then cancelClick st else st);
          st2 = onEpochEnd epoch (L epoch) st1
      in if cancelTraining st1 \<or> 0.9 < val_acc (L epoch) then st2
         else fitLoop (Suc epoch) epochs L C st2)"
  using assms
  by (subst fitLoop.simps) (simp add: Let_def stopTraining_onEpochEnd stopTraining_cancelClick)

lemma fitLoop_runs_on:
  assumes "\<not> cancelTraining st" and "\<not> stopTraining st" and "\<forall>e. val_acc (L e) \<le> 0.9"
    and "epoch < epochs"
  shows "trainEpochBox (document (fitLoop epoch epochs L C st)) = epochs
       \<and> \<not> stopTraining (fitLoop epoch epochs L C st)
       \<and> \<not> cancelTraining (fitLoop epoch epochs L C st)"
  using assms
proof (induction "epochs - epoch" arbitrary: epoch st)
  case 0
  then show ?case by simp
next
  case (Suc n)
  let ?st2 = "onEpochEnd epoch (L epoch) st"
  have low: "\<not> 0.9 < val_acc (L epoch)"
    using Suc.prems(3) by (simp add: not_less)
  have step: "fitLoop epoch epochs L C st = fitLoop (Suc epoch) epochs L C ?st2"
    using fitLoop_step [OF Suc.prems(4) Suc.prems(2), of L C] Suc.prems(1) low
    by (simp add: cancelClick_ignored Let_def)
  have st2: "\<not> cancelTraining ?st2" "\<not> stopTraining ?st2" "trainEpochBox (document ?st2) = epoch + 1"
    using Suc.prems(1,2) low
    by (simp_all add: cancelTraining_onEpochEnd stopTraining_onEpochEnd trainEpochBox_onEpochEnd)
  show ?case
  proof (cases "Suc epoch < epochs")
    case True
    with Suc.hyps(1) [of "Suc epoch" ?st2] Suc.hyps(2) st2 Suc.prems(3) show ?thesis
      by (simp add: step)
  next
    case False
    with Suc.prems(4) have "Suc epoch = epochs" by simp
    with st2 show ?thesis
      by (simp add: step) (subst fitLoop.simps, simp)+
  qed
qed

lemma fitLoop_stops_at:
  assumes "\<not> cancelTraining st" and "\<not> stopTraining st" and "\<forall>e. \<not> C e"
    and "\<forall>e<n. val_acc (L e) \<le> 0.9" and "0.9 < val_acc (L n)"
    and "epoch \<le> n" and "n < epochs"
  shows "trainEpochBox (document (fitLoop epoch epochs L C st)) = n + 1
       \<and> stopTraining (fitLoop epoch epochs L C st)
       \<and> \<not> cancelTraining (fitLoop epoch epochs L C st)"
  using assms
proof (induction "n - epoch" arbitrary: epoch st)
  case 0
  then have n: "epoch = n" by simp
  from 0 n have "fitLoop epoch epochs L C st = onEpochEnd n (L n) st"
    using fitLoop_step [of epoch epochs st L C] by (simp add: Let_def)
  moreover have "trainEpochBox (document (onEpochEnd n (L n) st)) = n + 1
       \<and> stopTraining (onEpochEnd n (L n) st) \<and> \<not> cancelTraining (onEpochEnd n (L n) st)"
    using "0.prems"(1,5)
    by (simp add: cancelTraining_onEpochEnd stopTraining_onEpochEnd trainEpochBox_onEpochEnd)
  ultimately show ?case
    by (simp only: simp_thms)
next
  case (Suc m)
  then have lt: "epoch < n" "epoch < epochs" by simp_all
  let ?st2 = "onEpochEnd epoch (L epoch) st"
  from lt Suc.prems(4) have low: "\<not> 0.9 < val_acc (L epoch)"
    by (simp add: not_less)
  have step: "fitLoop epoch epochs L C st = fitLoop (Suc epoch) epochs L C ?st2"
    using fitLoop_step [OF lt(2) Suc.prems(2), of L C] Suc.prems(1,3) low
    by (simp add: Let_def)
  have st2: "\<not> cancelTraining ?st2" "\<not> stopTraining ?st2"
    using Suc.prems(1,2) low
    by (simp_all add: cancelTraining_onEpochEnd stopTraining_onEpochEnd)
  from Suc.hyps(1) [of "Suc epoch" ?st2] Suc.hyps(2) st2 Suc.prems lt show ?case
    by (simp add: step)
qed

text \<open>
  C3, on the code. The cancel action throws \<^verbatim>\<open>TypeError\<close>, because it assigns to a
  \<^verbatim>\<open>const\<close> binding, and leaves the state as it was. With a click during the first epoch
  and a validation accuracy that stays at 0.5, training runs all 1000 epochs and the flag
  is never set.
\<close>

theorem cancel_click_has_no_effect:
  "cancel initialAppState = Inl TypeError
   \<and> cancelClick initialAppState = initialAppState
   \<and> trainEpochBox (document (fit steadyLogs clickDuringFirstEpoch initialAppState)) = 1000
   \<and> \<not> stopTraining (fit steadyLogs clickDuringFirstEpoch initialAppState)
   \<and> \<not> cancelTraining (fit steadyLogs clickDuringFirstEpoch initialAppState)"
proof -
  have "\<forall>e. val_acc (steadyLogs e) \<le> 0.9"
    by (simp add: steadyLogs_def)
  then have "trainEpochBox (document (fitLoop 0 1000 steadyLogs clickDuringFirstEpoch (initialAppState\<lparr>stopTraining := False\<rparr>))) = 1000
       \<and> \<not> stopTraining (fitLoop 0 1000 steadyLogs clickDuringFirstEpoch (initialAppState\<lparr>stopTraining := False\<rparr>))
       \<and> \<not> cancelTraining (fitLoop 0 1000 steadyLogs clickDuringFirstEpoch (initialAppState\<lparr>stopTraining := False\<rparr>))"
    by (intro fitLoop_runs_on) (simp_all add: initialAppState_def)
  then show ?thesis
    by (simp add: fit_def cancel_throws cancelClick_ignored)
qed

text \<open>
  C9. The callback at the end of an epoch sets \<^verbatim>\<open>model.stopTraining\<close> exactly when the
  cancellation flag is set or the epoch's validation accuracy exceeds 0.9, and the epoch
  loop goes on to the next epoch exactly when neither holds. So with no cancellation at
  all, fitting ends after the first epoch whose validation accuracy exceeds 0.9.
\<close>

theorem onEpochEnd_stops_training:
  "(\<not> stopTraining st \<longrightarrow>
      (stopTraining (onEpochEnd epoch lg st) \<longleftrightarrow> cancelTraining st \<or> 0.9 < val_acc lg))
   \<and> (epoch < epochs \<longrightarrow> \<not> stopTraining st \<longrightarrow>
        fitLoop epoch epochs L C st =
          (let st1 = (if C epoch then cancelClick st else st);
               st2 = onEpochEnd epoch (L epoch) st1
           in if cancelTraining st1 \<or> 0.9 < val_acc (L epoch) then st2
              else fitLoop (Suc epoch) epochs L C st2))
   \<and> (\<not> cancelTraining st \<longrightarrow> (\<forall>e. \<not> C e) \<longrightarrow> n < 1000 \<longrightarrow>
        (\<forall>e<n. val_acc (L e) \<le> 0.9) \<longrightarrow> 0.9 < val_acc (L n) \<longrightarrow>
        trainEpochBox (document (fit L C st)) = n + 1
        \<and> stopTraining (fit L C st) \<and> \<not> cancelTraining (fit L C st))"
proof (intro conjI impI)
  assume "\<not> stopTraining st"
  then show "stopTraining (onEpochEnd epoch lg st) \<longleftrightarrow> cancelTraining st \<or> 0.9 < val_acc lg"
    by (simp add: stopTraining_onEpochEnd)
next
  assume "epoch < epochs" and "\<not> stopTraining st"
  then show "fitLoop epoch epochs L C st =
          (let st1 = (if C epoch then cancelClick st else st);
               st2 = onEpochEnd epoch (L epoch) st1
           in if cancelTraining st1 \<or> 0.9 < val_acc (L epoch) then st2
              else fitLoop (Suc epoch) epochs L C st2)"
    by (rule fitLoop_step)
next
  assume a: "\<not> cancelTraining st" "\<forall>e. \<not> C e" "n < 1000"
    "\<forall>e<n. val_acc (L e) \<le> 0.9" "0.9 < val_acc (L n)"
  have "trainEpochBox (document (fitLoop 0 1000 L C (st\<lparr>stopTraining := False\<rparr>))) = n + 1
       \<and> stopTraining (fitLoop 0 1000 L C (st\<lparr>stopTraining := False\<rparr>))
       \<and> \<not> cancelTraining (fitLoop 0 1000 L C (st\<lparr>stopTraining := False\<rparr>))"
    using a by (intro fitLoop_stops_at) simp_all
  then show "trainEpochBox (document (fit L C st)) = n + 1"
    and "stopTraining (fit L C st)" and "\<not> cancelTraining (fit L C st)"
    by (simp_all add: fit_def)
qed

theorem onEpochEnd_stops_training_witness:
  "trainEpochBox (document (fit improvingLogs noClicks initialAppState)) = 3
   \<and> stopTraining (fit improvingLogs noClicks initialAppState)
   \<and> \<not> cancelTraining (fit improvingLogs noClicks initialAppState)
   \<and> stopTraining (onEpochEnd 2 (improvingLogs 2) initialAppState)
   \<and> \<not> stopTraining (onEpochEnd 1 (improvingLogs 1) initialAppState)"
proof -
  note all = onEpochEnd_stops_training [of initialAppState _ _ _ improvingLogs noClicks 2]
  have idle: "\<not> stopTraining initialAppState" "\<not> cancelTraining initialAppState"
    by (simp_all add: initialAppState_def)
  have "trainEpochBox (document (fit improvingLogs noClicks initialAppState)) = 2 + 1
        \<and> stopTraining (fit improvingLogs noClicks initialAppState)
        \<and> \<not> cancelTraining (fit improvingLogs noClicks initialAppState)"
    by (rule all [of 0 "improvingLogs 0" 1, THEN conjunct2, THEN conjunct2, rule_format])
      (simp_all add: idle noClicks_def improvingLogs_def)
  moreover have "stopTraining (onEpochEnd 2 (improvingLogs 2) initialAppState)"
    using all [of 2 "improvingLogs 2" 3, THEN conjunct1] idle
    by (simp add: improvingLogs_def)
  moreover have "\<not> stopTraining (onEpochEnd 1 (improvingLogs 1) initialAppState)"
    using all [of 1 "improvingLogs 1" 3, THEN conjunct1] idle
    by (simp add: improvingLogs_def)
  ultimately show ?thesis by simp
qed

lemma Math_round_unit:
  assumes "0 \<le> p" and "p \<le> 1"
  shows "Math_round p = 0 \<or> Math_round p = 1"
proof -
  have "0 \<le> \<lfloor>p + 1 / 2\<rfloor>" using assms by simp
  moreover have "\<lfloor>p + 1 / 2\<rfloor> < 2"
    using assms by (simp add: floor_less_iff)
  ultimately show ?thesis
    unfolding Math_round_def by linarith
qed







end
